theory Spec2Isabelle
  imports Complex_Main "HOL-Library.AList"
begin

section \<open>Go strings and the process environment\<close>

text \<open>
  A Go string is a sequence of bytes, so it is a \<open>string\<close> (a \<open>char list\<close>, one
  \<open>char\<close> per byte). The two library functions that \<open>getEnabledFeatures\<close> calls are
  written out: \<open>strings.Split\<close> with a one-byte separator, and \<open>strings.TrimSpace\<close>,
  which removes the leading and the trailing runes that \<open>unicode.IsSpace\<close> accepts.
  Those runes are listed below by their UTF-8 encodings; a byte that starts no such
  encoding (an invalid byte included, which Go decodes as U+FFFD) stops the trimming.
\<close>

fun Split :: "string \<Rightarrow> char \<Rightarrow> string list" where
  "Split [] sep = [[]]"
| "Split (c # cs) sep =
     (if c = sep then [] # Split cs sep
      else (case Split cs sep of
              p # ps \<Rightarrow> (c # p) # ps
            | [] \<Rightarrow> [[c]]))"

definition spaceRunes :: "string list" where
  "spaceRunes =
     [[CHR 0x09], [CHR 0x0A], [CHR 0x0B], [CHR 0x0C], [CHR 0x0D], [CHR 0x20],
      [CHR 0xC2, CHR 0x85], [CHR 0xC2, CHR 0xA0],
      [CHR 0xE1, CHR 0x9A, CHR 0x80],
      [CHR 0xE2, CHR 0x80, CHR 0x80], [CHR 0xE2, CHR 0x80, CHR 0x81],
      [CHR 0xE2, CHR 0x80, CHR 0x82], [CHR 0xE2, CHR 0x80, CHR 0x83],
      [CHR 0xE2, CHR 0x80, CHR 0x84], [CHR 0xE2, CHR 0x80, CHR 0x85],
      [CHR 0xE2, CHR 0x80, CHR 0x86], [CHR 0xE2, CHR 0x80, CHR 0x87],
      [CHR 0xE2, CHR 0x80, CHR 0x88], [CHR 0xE2, CHR 0x80, CHR 0x89],
      [CHR 0xE2, CHR 0x80, CHR 0x8A],
      [CHR 0xE2, CHR 0x80, CHR 0xA8], [CHR 0xE2, CHR 0x80, CHR 0xA9],
      [CHR 0xE2, CHR 0x80, CHR 0xAF],
      [CHR 0xE2, CHR 0x81, CHR 0x9F],
      [CHR 0xE3, CHR 0x80, CHR 0x80]]"

definition startsWith :: "string \<Rightarrow> string \<Rightarrow> bool" where
  "startsWith s t = (take (length t) s = t)"

lemma spaceRunes_nonempty: "t \<in> set spaceRunes \<Longrightarrow> t \<noteq> []"
  by (auto simp: spaceRunes_def)

lemma find_startsWith_shorter:
  assumes "find (startsWith s) ts = Some t" and "\<forall>u \<in> set ts. u \<noteq> []"
  shows "length (drop (length t) s) < length s"
proof -
  from assms(1) have mem: "t \<in> set ts" and sw: "startsWith s t"
    by (auto simp: find_Some_iff)
  from mem assms(2) have "t \<noteq> []" by blast
  moreover have "length t \<le> length s"
  proof -
    from sw have "length (take (length t) s) = length t"
      by (simp add: startsWith_def)
    then show ?thesis by simp
  qed
  ultimately show ?thesis by (cases t) auto
qed

text \<open>The loop of \<open>TrimLeftFunc\<close>: drop one space rune at the front, again and again.
  The list of runes is a parameter so that the same loop, on the reversed string with
  the reversed encodings, is the loop of \<open>TrimRightFunc\<close>.\<close>

function trimFront :: "bool \<Rightarrow> string \<Rightarrow> string" where
  "trimFront atEnd s =
     (case find (startsWith s) (if atEnd then map rev spaceRunes else spaceRunes) of
        None \<Rightarrow> s
      | Some t \<Rightarrow> trimFront atEnd (drop (length t) s))"
  by pat_completeness auto
termination
proof (relation "measure (\<lambda>(atEnd, s). length s)")
  show "wf (measure (\<lambda>(atEnd, s). length s))" by simp
next
  fix atEnd :: bool and s t :: string
  assume "find (startsWith s) (if atEnd then map rev spaceRunes else spaceRunes) = Some t"
  moreover have "\<forall>u \<in> set (if atEnd then map rev spaceRunes else spaceRunes). u \<noteq> []"
    using spaceRunes_nonempty by auto
  ultimately have "length (drop (length t) s) < length s"
    by (rule find_startsWith_shorter)
  then show "((atEnd, drop (length t) s), (atEnd, s)) \<in> measure (\<lambda>(atEnd, s). length s)"
    by simp
qed

definition TrimSpace :: "string \<Rightarrow> string" where
  "TrimSpace s = rev (trimFront True (rev (trimFront False s)))"

text \<open>\<open>os.Getenv\<close> returns the empty string for a variable that is not set.\<close>

type_synonym environ = "string \<rightharpoonup> string"

definition Getenv :: "environ \<Rightarrow> string \<Rightarrow> string" where
  "Getenv env key = (case env key of None \<Rightarrow> [] | Some v \<Rightarrow> v)"

definition getEnvOrDefault :: "environ \<Rightarrow> string \<Rightarrow> string \<Rightarrow> string" where
  "getEnvOrDefault env key defaultValue =
     (let v = Getenv env key in if v \<noteq> [] then v else defaultValue)"

section \<open>Errors\<close>

text \<open>
  Go's \<open>error\<close> values, as far as the three packages build or return them. An error
  made by a collaborator (the SQL driver, the HTTP server, a hook) is \<open>OpError\<close> with its
  text. An error made by \<open>fmt.Errorf\<close> with \<open>%w\<close> has one constructor per format
  string, carrying the format's arguments: \<open>ShutdownHookFailed n e\<close> is
  \<open>fmt.Errorf("shutdown hook %d failed: %w", n, e)\<close>. \<open>ContextErr\<close> is what
  \<open>ctx.Err()\<close> returns once the context is done.
\<close>

datatype error =
    OpError string
  | ErrCircuitOpen
  | ErrTooManyRequests
  | ContextErr
  | HTTPServerShutdownFailed error
  | ShutdownHookFailed nat error
  | DatabaseCloseFailed error

section \<open>Package health\<close>

datatype Status = StatusHealthy | StatusUnhealthy | StatusDegraded

text \<open>
  The text of a check's message is kept symbolic in the same way: one constructor per
  message or format string of the source. The fields that only record wall-clock
  readings (\<open>Timestamp\<close>, \<open>Duration\<close>, \<open>Uptime\<close>) are left out of \<open>Check\<close> and
  \<open>HealthResponse\<close>: no branch of the package reads them.
\<close>

datatype Message =
    DatabaseConnectionFailed error
  | DatabaseConnectionSuccessful
  | MemoryUsageWithinNormalLimits
  | NoFeaturesEnabled
  | FeaturesEnabled "string list"

record Check =
  Name :: string
  Status :: Status
  Message :: Message

record HealthResponse =
  Status_resp :: Status
  Version :: string
  Checks :: "(string \<times> Check) list"

text \<open>
  \<open>Checker\<close>: \<open>startTime\<close> is nanoseconds on the clock that \<open>time.Now()\<close> reads. The
  database handle is not a field of the record: the state behind it is a value of a
  type \<open>'db\<close> passed beside the checker, and \<open>c.db.Ping\<close> is a function
  \<open>'db \<Rightarrow> error option \<times> 'db\<close> (the error, \<open>None\<close> for nil, and the state after).
\<close>

record Checker =
  startTime :: int
  ready :: bool
  startup :: bool

definition Second :: int where
  "Second = 1000000000"

definition NewChecker :: "int \<Rightarrow> Checker" where
  "NewChecker now = \<lparr>startTime = now, ready = False, startup = False\<rparr>"

text \<open>
  The goroutine that \<open>NewChecker\<close> starts: it sleeps five seconds and sets \<open>startup\<close>.
  \<open>time.Sleep\<close> returns no earlier than its duration after the call, and the call comes
  after \<open>startTime\<close> was read, so the assignment can run at the time \<open>now\<close> only if five
  seconds have passed since \<open>startTime\<close>.
\<close>

definition startupGoroutine :: "int \<Rightarrow> Checker \<Rightarrow> Checker" where
  "startupGoroutine now c =
     (if 5 * Second \<le> now - startTime c then c\<lparr>startup := True\<rparr> else c)"

definition getEnabledFeatures :: "environ \<Rightarrow> string list" where
  "getEnabledFeatures env =
     (let featureFlags =
            getEnvOrDefault env ''FEATURE_FLAGS'' ''graceful_degradation,circuit_breaker''
      in if featureFlags = [] then []
         else map TrimSpace (Split featureFlags CHR '',''))"

text \<open>The loop of \<open>isGracefulDegradationEnabled\<close>, with its early return.\<close>

fun hasGracefulDegradation :: "string list \<Rightarrow> bool" where
  "hasGracefulDegradation [] = False"
| "hasGracefulDegradation (feature # features) =
     (if feature = ''graceful_degradation'' then True
      else hasGracefulDegradation features)"

definition isGracefulDegradationEnabled :: "environ \<Rightarrow> bool" where
  "isGracefulDegradationEnabled env = hasGracefulDegradation (getEnabledFeatures env)"

definition checkDatabase :: "('db \<Rightarrow> error option \<times> 'db) \<Rightarrow> 'db \<Rightarrow> Check \<times> 'db" where
  "checkDatabase ping d =
     (case ping d of
        (Some err, d') \<Rightarrow>
          (\<lparr>Name = ''database'', Status = StatusUnhealthy,
            Message = DatabaseConnectionFailed err\<rparr>, d')
      | (None, d') \<Rightarrow>
          (\<lparr>Name = ''database'', Status = StatusHealthy,
            Message = DatabaseConnectionSuccessful\<rparr>, d'))"

definition checkMemory :: Check where
  "checkMemory =
     \<lparr>Name = ''memory'', Status = StatusHealthy, Message = MemoryUsageWithinNormalLimits\<rparr>"

definition checkFeatures :: "environ \<Rightarrow> Check" where
  "checkFeatures env =
     (let features = getEnabledFeatures env
      in if length features = 0
         then \<lparr>Name = ''features'', Status = StatusDegraded, Message = NoFeaturesEnabled\<rparr>
         else \<lparr>Name = ''features'', Status = StatusHealthy,
               Message = FeaturesEnabled features\<rparr>)"

text \<open>
  \<open>determineOverallStatus\<close> ranges over a Go map. The map is given as the list of its
  entries in the order the \<open>range\<close> visits them (Go leaves that order open, so a
  property of the function is stated for every list). \<open>scanChecks\<close> is the loop: it
  carries \<open>hasUnhealthy\<close> and \<open>hasDegraded\<close>.
\<close>

fun scanChecks :: "(string \<times> Check) list \<Rightarrow> bool \<times> bool \<Rightarrow> bool \<times> bool" where
  "scanChecks [] flags = flags"
| "scanChecks ((name, check) # rest) (hasUnhealthy, hasDegraded) =
     (case Status check of
        StatusUnhealthy \<Rightarrow> scanChecks rest (True, hasDegraded)
      | StatusDegraded \<Rightarrow> scanChecks rest (hasUnhealthy, True)
      | StatusHealthy \<Rightarrow> scanChecks rest (hasUnhealthy, hasDegraded))"

definition determineOverallStatus :: "environ \<Rightarrow> (string \<times> Check) list \<Rightarrow> Status" where
  "determineOverallStatus env checks =
     (case scanChecks checks (False, False) of
        (hasUnhealthy, hasDegraded) \<Rightarrow>
          if hasUnhealthy \<and> \<not> isGracefulDegradationEnabled env then StatusUnhealthy
          else if hasUnhealthy \<or> hasDegraded then StatusDegraded
          else StatusHealthy)"

definition HealthCheck ::
  "('db \<Rightarrow> error option \<times> 'db) \<Rightarrow> environ \<Rightarrow> Checker \<Rightarrow> 'db \<Rightarrow> HealthResponse \<times> 'db" where
  "HealthCheck ping env c d =
     (case checkDatabase ping d of
        (dbCheck, d') \<Rightarrow>
          (let checks0 = AList.update ''database'' dbCheck [];
               checks1 = AList.update ''memory'' checkMemory checks0;
               checks2 = AList.update ''features'' (checkFeatures env) checks1
           in (\<lparr>Status_resp = determineOverallStatus env checks2,
                Version = getEnvOrDefault env ''APP_VERSION'' ''1.0.0'',
                Checks = checks2\<rparr>, d')))"

definition ReadinessCheck ::
  "('db \<Rightarrow> error option \<times> 'db) \<Rightarrow> environ \<Rightarrow> Checker \<Rightarrow> 'db \<Rightarrow> bool \<times> Checker \<times> 'db" where
  "ReadinessCheck ping env c d =
     (if \<not> startup c then (False, c, d)
      else (case checkDatabase ping d of
              (dbCheck, d') \<Rightarrow>
                if Status dbCheck = StatusUnhealthy
                then (if isGracefulDegradationEnabled env then (True, c, d')
                      else (False, c, d'))
                else (True, c\<lparr>ready := True\<rparr>, d')))"

definition StartupCheck :: "Checker \<Rightarrow> bool" where
  "StartupCheck c = startup c"

definition IsReady :: "Checker \<Rightarrow> bool" where
  "IsReady c = ready c"

text \<open>
  A run of the checker: the calls that reach it, each with the time at which it takes
  the lock. \<open>StartupTimerFires\<close> is the startup goroutine reaching its assignment;
  \<open>HealthCheckCall\<close> is also what a tick of \<open>backgroundHealthCheck\<close> does (it calls
  \<open>HealthCheck\<close> and only logs the answer). \<open>checkerRun\<close> lists, call by call, the
  reply and the state after the call.
\<close>

datatype Call =
    StartupTimerFires
  | HealthCheckCall environ
  | ReadinessCheckCall environ
  | StartupCheckCall
  | IsReadyCall

datatype Reply = NoReply | BoolReply bool | HealthReply HealthResponse

definition checkerStep ::
  "('db \<Rightarrow> error option \<times> 'db) \<Rightarrow> int \<times> Call \<Rightarrow> Checker \<times> 'db \<Rightarrow> Reply \<times> Checker \<times> 'db" where
  "checkerStep ping timed s =
     (case (timed, s) of
        ((now, call), (c, d)) \<Rightarrow>
          (case call of
             StartupTimerFires \<Rightarrow> (NoReply, startupGoroutine now c, d)
           | HealthCheckCall env \<Rightarrow>
               (case HealthCheck ping env c d of (r, d') \<Rightarrow> (HealthReply r, c, d'))
           | ReadinessCheckCall env \<Rightarrow>
               (case ReadinessCheck ping env c d of (b, c', d') \<Rightarrow> (BoolReply b, c', d'))
           | StartupCheckCall \<Rightarrow> (BoolReply (StartupCheck c), c, d)
           | IsReadyCall \<Rightarrow> (BoolReply (IsReady c), c, d)))"

fun checkerRun ::
  "('db \<Rightarrow> error option \<times> 'db) \<Rightarrow> (int \<times> Call) list \<Rightarrow> Checker \<times> 'db
     \<Rightarrow> (Reply \<times> Checker \<times> 'db) list" where
  "checkerRun ping [] s = []"
| "checkerRun ping (timed # rest) s =
     (let r = checkerStep ping timed s in r # checkerRun ping rest (snd r))"

text \<open>The state a run leaves: the checker and the database after all calls of the
  list. The state before call \<open>i\<close> of a run is the state after its first \<open>i\<close> calls.\<close>

definition checkerAfter ::
  "('db \<Rightarrow> error option \<times> 'db) \<Rightarrow> (int \<times> Call) list \<Rightarrow> Checker \<times> 'db \<Rightarrow> Checker \<times> 'db" where
  "checkerAfter ping tr s = foldl (\<lambda>s timed. snd (checkerStep ping timed s)) s tr"

section \<open>Package handlers\<close>

text \<open>The handler's feature list is a literal; it reads nothing.\<close>

definition Handler_getEnabledFeatures :: "string list" where
  "Handler_getEnabledFeatures = [''graceful_degradation'', ''circuit_breaker'', ''metrics'']"

definition Handler_isGracefulDegradationEnabled :: bool where
  "Handler_isGracefulDegradationEnabled = hasGracefulDegradation Handler_getEnabledFeatures"

section \<open>Package shutdown\<close>

text \<open>
  What the manager tears down lives in a world of type \<open>'w\<close>. A hook, the server's
  \<open>Shutdown(ctx)\<close> and the database's \<open>Close()\<close> are actions on it: each returns its
  error (\<open>None\<close> for nil) and the world it leaves. The log lists the lines the teardown
  goroutine writes to \<open>m.logger\<close>, one constructor per line, in order.
\<close>

type_synonym 'w action = "'w \<Rightarrow> error option \<times> 'w"

record 'w Manager =
  server :: "'w action"
  db :: "'w action"
  shutdownFn :: "'w action list"
  isShutdown :: bool

datatype LogEntry =
    StoppingHTTPServer
  | HTTPServerShutdownFailedLog error
  | HTTPServerStopped
  | ExecutingShutdownHooks
  | ExecutingShutdownHook nat
  | ShutdownHookFailedLog nat error
  | ClosingDatabaseConnections
  | DatabaseCloseFailedLog error
  | DatabaseConnectionsClosed
  | PerformingFinalCleanup

definition NewManager :: "'w action \<Rightarrow> 'w action \<Rightarrow> 'w Manager" where
  "NewManager srv database =
     \<lparr>server = srv, db = database, shutdownFn = [], isShutdown = False\<rparr>"

definition AddShutdownHook :: "'w Manager \<Rightarrow> 'w action \<Rightarrow> 'w Manager" where
  "AddShutdownHook m fn = m\<lparr>shutdownFn := shutdownFn m @ [fn]\<rparr>"

text \<open>Step 2, the loop over \<open>m.shutdownFn\<close>; \<open>i\<close> is the index of the first hook of
  the list that is left.\<close>

fun runHooks :: "nat \<Rightarrow> 'w action list \<Rightarrow> 'w \<Rightarrow> LogEntry list \<times> 'w \<times> error option" where
  "runHooks i [] w = ([], w, None)"
| "runHooks i (fn # fns) w =
     (case fn w of
        (Some err, w') \<Rightarrow>
          ([ExecutingShutdownHook (i + 1), ShutdownHookFailedLog (i + 1) err], w',
           Some (ShutdownHookFailed (i + 1) err))
      | (None, w') \<Rightarrow>
          (case runHooks (i + 1) fns w' of
             (lg, w'', sent) \<Rightarrow> (ExecutingShutdownHook (i + 1) # lg, w'', sent)))"

text \<open>The goroutine of \<open>Shutdown\<close>: its log, the world it leaves, and what it sends on
  \<open>done\<close>.\<close>

definition teardown :: "'w Manager \<Rightarrow> 'w \<Rightarrow> LogEntry list \<times> 'w \<times> error option" where
  "teardown m w =
     (case server m w of
        (Some err, w1) \<Rightarrow>
          ([StoppingHTTPServer, HTTPServerShutdownFailedLog err], w1,
           Some (HTTPServerShutdownFailed err))
      | (None, w1) \<Rightarrow>
          (case runHooks 0 (shutdownFn m) w1 of
             (lg, w2, Some e) \<Rightarrow>
               ([StoppingHTTPServer, HTTPServerStopped, ExecutingShutdownHooks] @ lg, w2, Some e)
           | (lg, w2, None) \<Rightarrow>
               (case db m w2 of
                  (Some err, w3) \<Rightarrow>
                    ([StoppingHTTPServer, HTTPServerStopped, ExecutingShutdownHooks] @ lg
                       @ [ClosingDatabaseConnections, DatabaseCloseFailedLog err],
                     w3, Some (DatabaseCloseFailed err))
                | (None, w3) \<Rightarrow>
                    ([StoppingHTTPServer, HTTPServerStopped, ExecutingShutdownHooks] @ lg
                       @ [ClosingDatabaseConnections, DatabaseConnectionsClosed,
                          PerformingFinalCleanup],
                     w3, None))))"

text \<open>
  \<open>Shutdown\<close>: the guard under the mutex, then the goroutine and the \<open>select\<close>.
  \<open>ctxDoneFirst\<close> says which case the \<open>select\<close> takes: \<open>True\<close> when it is
  \<open><-ctx.Done()\<close> (the deadline passed before the goroutine sent its result, or both
  were ready and Go chose it), and then the call returns \<open>ctx.Err()\<close>. That does not stop
  the goroutine, so the log and the world returned are those of the goroutine run to its
  end. The result is the returned error, the manager, the world and the log.
\<close>

definition Shutdown ::
  "bool \<Rightarrow> 'w Manager \<Rightarrow> 'w \<Rightarrow> error option \<times> 'w Manager \<times> 'w \<times> LogEntry list" where
  "Shutdown ctxDoneFirst m w =
     (if isShutdown m then (None, m, w, [])
      else (let m' = m\<lparr>isShutdown := True\<rparr>
            in (case teardown m' w of
                  (lg, w', sent) \<Rightarrow>
                    (if ctxDoneFirst then Some ContextErr else sent, m', w', lg))))"

definition IsShutdown :: "'w Manager \<Rightarrow> bool" where
  "IsShutdown m = isShutdown m"

text \<open>A sequence of calls on one manager, each call run to its end (a \<open>Shutdown\<close> with
  its goroutine) before the next one begins. The log of the run is the logs of its
  calls, one after the other. What another call does while a \<open>Shutdown\<close> is still at
  work is the matter of the interleaved runs further down.\<close>

datatype 'w MCall = AddShutdownHookCall "'w action" | ShutdownCall bool | IsShutdownCall

datatype MReply = Added | ShutdownReturned "error option" | IsShutdownReturned bool

fun managerRun ::
  "'w MCall list \<Rightarrow> 'w Manager \<Rightarrow> 'w \<Rightarrow> MReply list \<times> 'w Manager \<times> 'w \<times> LogEntry list" where
  "managerRun [] m w = ([], m, w, [])"
| "managerRun (AddShutdownHookCall fn # rest) m w =
     (case managerRun rest (AddShutdownHook m fn) w of
        (rs, m', w', lg) \<Rightarrow> (Added # rs, m', w', lg))"
| "managerRun (ShutdownCall ctxDoneFirst # rest) m w =
     (case Shutdown ctxDoneFirst m w of
        (ret, m1, w1, lg1) \<Rightarrow>
          (case managerRun rest m1 w1 of
             (rs, m', w', lg) \<Rightarrow> (ShutdownReturned ret # rs, m', w', lg1 @ lg)))"
| "managerRun (IsShutdownCall # rest) m w =
     (case managerRun rest m w of
        (rs, m', w', lg) \<Rightarrow> (IsShutdownReturned (IsShutdown m) # rs, m', w', lg))"









section \<open>Package database: the circuit breaker around the connection\<close>

text \<open>
  The package builds its breaker with \<open>gobreaker.NewCircuitBreaker(cbSettings)\<close> and
  calls \<open>circuitBreaker.Execute\<close>. The settings and the callers are in the package; the
  breaker itself is the library \<open>github.com/sony/gobreaker\<close>, whose code is not part
  of this repository. Its state and its \<open>Execute\<close> are therefore written from the
  specification's section on the FailureGate, and marked so. Times and durations are
  nanoseconds, as \<open>time.Duration\<close> counts them.
\<close>

text \<open>Modelled from the spec: the three states of the FailureGate (the library's
  \<open>gobreaker.State\<close> is missing).\<close>

datatype State = Closed | Open | HalfOpen

text \<open>Modelled from the spec: the gate's counts \<open>{requests, successes, failures,
  consecutiveFailures}\<close> since the last reset (the library's \<open>gobreaker.Counts\<close> is
  missing). The fields that the packages read carry the names they read them by:
  \<open>Requests\<close>, \<open>TotalSuccesses\<close>, \<open>TotalFailures\<close>.\<close>

record Counts =
  Requests :: nat
  TotalSuccesses :: nat
  TotalFailures :: nat
  ConsecutiveFailures :: nat

text \<open>Modelled from the spec: the gate's configuration \<open>{rollingInterval, openTimeout,
  halfOpenMaxProbes, tripPredicate}\<close> (the library's \<open>gobreaker.Settings\<close> is missing;
  the package sets its fields \<open>Interval\<close>, \<open>Timeout\<close>, \<open>MaxRequests\<close> and
  \<open>ReadyToTrip\<close>).\<close>

record Config =
  rollingInterval :: int
  openTimeout :: int
  halfOpenMaxProbes :: nat
  tripPredicate :: "Counts \<Rightarrow> bool"

text \<open>Modelled from the spec: the gate's state \<open>{state, counts, openedAt}\<close> (the
  library's \<open>gobreaker.CircuitBreaker\<close> is missing). \<open>intervalStart\<close> is added: the
  counts are reset "on every Closed-state rolling interval expiry", so the gate has to
  know when the running interval began.\<close>

record FailureGate =
  state :: State
  counts :: Counts
  openedAt :: int
  intervalStart :: int

text \<open>
  \<open>ReadyToTrip\<close> is the package's own function, in \<open>cbSettings\<close>. The source divides in
  \<open>float64\<close>; the model divides in the reals. The two agree on the comparison: the
  counts are below \<open>2^32\<close>, so their conversions are exact, the quotient is rounded to
  the nearest \<open>float64\<close>, \<open>0.5\<close> is a \<open>float64\<close>, and a quotient of such counts below
  \<open>0.5\<close> is below it by more than \<open>2^-34\<close>, so rounding cannot reach \<open>0.5\<close>. With no
  request the source's ratio is NaN or infinite and the model's is \<open>0\<close>, and the result
  is \<open>False\<close> in both by the first conjunct.
\<close>

definition ReadyToTrip :: "Counts \<Rightarrow> bool" where
  "ReadyToTrip cs =
     (let failureRatio = real (TotalFailures cs) / real (Requests cs)
      in Requests cs \<ge> 2 \<and> failureRatio \<ge> 0.5)"

definition cbSettings :: Config where
  "cbSettings =
     \<lparr>rollingInterval = 30 * Second, openTimeout = 10 * Second,
      halfOpenMaxProbes = 3, tripPredicate = ReadyToTrip\<rparr>"

definition zeroCounts :: Counts where
  "zeroCounts = \<lparr>Requests = 0, TotalSuccesses = 0, TotalFailures = 0, ConsecutiveFailures = 0\<rparr>"

text \<open>Modelled from the spec: the gate as it is "created once at startup with fixed
  config" (the library's \<open>NewCircuitBreaker\<close> is missing): Closed, no counts, the first
  interval starting at the time of creation.\<close>

definition NewFailureGate :: "int \<Rightarrow> FailureGate" where
  "NewFailureGate now =
     \<lparr>state = Closed, counts = zeroCounts, openedAt = now, intervalStart = now\<rparr>"

text \<open>Modelled from the spec: "on error, failures/consecutiveFailures increment; on
  success, consecutiveFailures resets to 0" (the library's counting is missing). A
  request is counted when the operation is invoked, a success when it returns no error.\<close>

definition countOutcome :: "bool \<Rightarrow> Counts \<Rightarrow> Counts" where
  "countOutcome failed cs =
     (if failed
      then cs\<lparr>Requests := Requests cs + 1, TotalFailures := TotalFailures cs + 1,
              ConsecutiveFailures := ConsecutiveFailures cs + 1\<rparr>
      else cs\<lparr>Requests := Requests cs + 1, TotalSuccesses := TotalSuccesses cs + 1,
              ConsecutiveFailures := 0\<rparr>)"

text \<open>Modelled from the spec: \<open>Execute\<close> in the Closed state (the library's
  \<open>Execute\<close> is missing). The counts are reset first if the rolling interval has
  expired; the operation is invoked; the outcome is counted; if the trip predicate
  holds of the counts, the gate opens, records \<open>openedAt = now\<close> and resets the counts.
  The operation is an action on a world \<open>'w\<close> that returns an error or a value.\<close>

definition executeClosed ::
  "Config \<Rightarrow> int \<Rightarrow> ('w \<Rightarrow> (error + 'v) \<times> 'w) \<Rightarrow> FailureGate \<Rightarrow> 'w
     \<Rightarrow> (error + 'v) \<times> FailureGate \<times> 'w" where
  "executeClosed cfg now operation g w =
     (let g1 = (if rollingInterval cfg \<le> now - intervalStart g
                then g\<lparr>counts := zeroCounts, intervalStart := now\<rparr> else g)
      in (case operation w of
            (r, w') \<Rightarrow>
              (let cs = countOutcome (isl r) (counts g1)
               in if tripPredicate cfg cs
                  then (r, g1\<lparr>state := Open, counts := zeroCounts, openedAt := now\<rparr>, w')
                  else (r, g1\<lparr>counts := cs\<rparr>, w'))))"

text \<open>Modelled from the spec: \<open>Execute\<close> in the HalfOpen state (the library's
  \<open>Execute\<close> is missing). At most \<open>halfOpenMaxProbes\<close> calls go through, one more fails
  fast with \<open>ErrTooManyRequests\<close>; a failure reopens the gate; \<open>halfOpenMaxProbes\<close>
  successes close it. The successes counted in this state are consecutive, since a
  failure leaves the state.\<close>

definition executeHalfOpen ::
  "Config \<Rightarrow> int \<Rightarrow> ('w \<Rightarrow> (error + 'v) \<times> 'w) \<Rightarrow> FailureGate \<Rightarrow> 'w
     \<Rightarrow> (error + 'v) \<times> FailureGate \<times> 'w" where
  "executeHalfOpen cfg now operation g w =
     (if halfOpenMaxProbes cfg \<le> Requests (counts g) then (Inl ErrTooManyRequests, g, w)
      else (case operation w of
              (r, w') \<Rightarrow>
                (let cs = countOutcome (isl r) (counts g)
                 in if isl r
                    then (r, g\<lparr>state := Open, counts := zeroCounts, openedAt := now\<rparr>, w')
                    else if halfOpenMaxProbes cfg \<le> TotalSuccesses cs
                    then (r, g\<lparr>state := Closed, counts := zeroCounts,
                               intervalStart := now\<rparr>, w')
                    else (r, g\<lparr>counts := cs\<rparr>, w'))))"

text \<open>Modelled from the spec: \<open>Execute(operation)\<close> of the FailureGate (the library's
  \<open>CircuitBreaker.Execute\<close> is missing). In Open, "if \<open>now - openedAt < openTimeout\<close>,
  fail immediately with \<open>ErrCircuitOpen\<close>"; once the timeout has elapsed the gate
  becomes HalfOpen, resets its counts, and the call goes on as a HalfOpen call.\<close>

definition Execute ::
  "Config \<Rightarrow> int \<Rightarrow> ('w \<Rightarrow> (error + 'v) \<times> 'w) \<Rightarrow> FailureGate \<Rightarrow> 'w
     \<Rightarrow> (error + 'v) \<times> FailureGate \<times> 'w" where
  "Execute cfg now operation g w =
     (case state g of
        Closed \<Rightarrow> executeClosed cfg now operation g w
      | Open \<Rightarrow>
          if now - openedAt g < openTimeout cfg then (Inl ErrCircuitOpen, g, w)
          else executeHalfOpen cfg now operation (g\<lparr>state := HalfOpen, counts := zeroCounts\<rparr>) w
      | HalfOpen \<Rightarrow> executeHalfOpen cfg now operation g w)"

text \<open>
  \<open>DB.Ping\<close> is the package's own: it runs \<open>db.conn.PingContext(ctx)\<close> through the
  breaker and returns the error alone. The connection is the world; \<open>pingContext\<close> is
  what the driver's ping does to it.
\<close>

definition Ping ::
  "Config \<Rightarrow> int \<Rightarrow> ('conn \<Rightarrow> error option \<times> 'conn) \<Rightarrow> FailureGate \<times> 'conn
     \<Rightarrow> error option \<times> FailureGate \<times> 'conn" where
  "Ping cfg now pingContext dbs =
     (case dbs of
        (g, conn) \<Rightarrow>
          (case Execute cfg now
                  (\<lambda>w. case pingContext w of
                         (None, w') \<Rightarrow> (Inr (), w')
                       | (Some err, w') \<Rightarrow> (Inl err, w'))
                  g conn of
             (Inl err, g', conn') \<Rightarrow> (Some err, g', conn')
           | (Inr u, g', conn') \<Rightarrow> (None, g', conn')))"

text \<open>A sequence of \<open>Execute\<close> calls on one gate, each with its time and its operation.
  \<open>executeRun\<close> lists, call by call, the time, the gate and the world before the call,
  then the result, the gate and the world after it.\<close>

fun executeRun ::
  "Config \<Rightarrow> (int \<times> ('w \<Rightarrow> (error + 'v) \<times> 'w)) list \<Rightarrow> FailureGate \<Rightarrow> 'w
     \<Rightarrow> (int \<times> FailureGate \<times> 'w \<times> (error + 'v) \<times> FailureGate \<times> 'w) list" where
  "executeRun cfg [] g w = []"
| "executeRun cfg ((now, operation) # rest) g w =
     (case Execute cfg now operation g w of
        (r, g', w') \<Rightarrow> (now, g, w, r, g', w') # executeRun cfg rest g' w')"

text \<open>An operation that counts its invocations: the world carries the number of times
  the operation was run.\<close>

definition counted :: "('w \<Rightarrow> (error + 'v) \<times> 'w) \<Rightarrow> nat \<times> 'w \<Rightarrow> (error + 'v) \<times> nat \<times> 'w" where
  "counted operation nw =
     (case nw of (n, w) \<Rightarrow> (case operation w of (r, w') \<Rightarrow> (r, Suc n, w')))"

section \<open>Concrete runs\<close>

text \<open>A run of the checker built at time 0: one startup probe after a second, the
  startup goroutine waking after six, two more startup probes.\<close>

definition demoTrace :: "(int \<times> Call) list" where
  "demoTrace = [(1 * Second, StartupCheckCall), (6 * Second, StartupTimerFires),
                (7 * Second, StartupCheckCall), (8 * Second, StartupCheckCall)]"

text \<open>A database whose pings are scripted: the state is the list of the results still
  to come; when the list is used up the ping succeeds.\<close>

definition scriptedPing :: "error option list \<Rightarrow> error option \<times> error option list" where
  "scriptedPing d = (case d of [] \<Rightarrow> (None, []) | x # xs \<Rightarrow> (x, xs))"

text \<open>An environment that turns graceful degradation off for the checker.\<close>

definition envOff :: environ where
  "envOff = [''FEATURE_FLAGS'' \<mapsto> ''circuit_breaker'']"

text \<open>A run of a checker built at time 0 over a database whose first ping succeeds and
  whose second fails: a probe of the ready flag, the startup goroutine waking, two
  readiness checks, a probe of the ready flag.\<close>

definition readyTrace :: "(int \<times> Call) list" where
  "readyTrace = [(1 * Second, IsReadyCall), (6 * Second, StartupTimerFires), (7 * Second, ReadinessCheckCall envOff),
                 (8 * Second, ReadinessCheckCall envOff), (9 * Second, IsReadyCall)]"

definition readyStart :: "Checker \<times> error option list" where
  "readyStart = (NewChecker 0, [None, Some (OpError ''connection refused'')])"

text \<open>Managers over a world that lists what was done to it, in order: one with a
  single hook that succeeds, one whose second hook of three fails.\<close>

definition okServer :: "string list action" where
  "okServer w = (None, w @ [''server stopped''])"
definition okDB :: "string list action" where
  "okDB w = (None, w @ [''database closed''])"
definition hookA :: "string list action" where
  "hookA w = (None, w @ [''hook A ran''])"
definition hookBad :: "string list action" where
  "hookBad w = (Some (OpError ''hook B failed''), w @ [''hook B ran''])"
definition hookC :: "string list action" where
  "hookC w = (None, w @ [''hook C ran''])"

definition goodManager :: "string list Manager" where
  "goodManager = AddShutdownHook (NewManager okServer okDB) hookA"

definition badManager :: "string list Manager" where
  "badManager =
     AddShutdownHook (AddShutdownHook (AddShutdownHook (NewManager okServer okDB) hookA)
       hookBad) hookC"

definition laterCalls :: "string list MCall list" where
  "laterCalls = [ShutdownCall False, AddShutdownHookCall hookC, ShutdownCall True]"

definition hookError :: error where
  "hookError = OpError ''hook B failed''"

text \<open>Calls on the breaker the package configures, built at time 0: an operation that
  fails at one and at two seconds, then one that succeeds at three and at thirteen.
  \<open>oneFailureGate\<close> is the gate after the first call, \<open>openGate\<close> after the second.\<close>

definition failingOp :: "unit \<Rightarrow> (error + unit) \<times> unit" where
  "failingOp w = (Inl (OpError ''connection refused''), w)"

definition succeedingOp :: "unit \<Rightarrow> (error + unit) \<times> unit" where
  "succeedingOp w = (Inr (), w)"

definition breakerCalls :: "(int \<times> (unit \<Rightarrow> (error + unit) \<times> unit)) list" where
  "breakerCalls =
     [(1 * Second, failingOp), (2 * Second, failingOp),
      (3 * Second, succeedingOp), (13 * Second, succeedingOp)]"

definition oneFailureGate :: FailureGate where
  "oneFailureGate =
     \<lparr>state = Closed,
      counts = \<lparr>Requests = 1, TotalSuccesses = 0, TotalFailures = 1, ConsecutiveFailures = 1\<rparr>,
      openedAt = 0, intervalStart = 0\<rparr>"

definition openGate :: FailureGate where
  "openGate = \<lparr>state = Open, counts = zeroCounts, openedAt = 2 * Second, intervalStart = 0\<rparr>"

text \<open>The same breaker when the operation fails at forty and at forty-one seconds:
  \<open>lateFailureGate\<close> is the gate after the first of these calls, \<open>lateOpenGate\<close> after
  the second.\<close>

definition lateFailureGate :: FailureGate where
  "lateFailureGate =
     \<lparr>state = Closed,
      counts = \<lparr>Requests = 1, TotalSuccesses = 0, TotalFailures = 1, ConsecutiveFailures = 1\<rparr>,
      openedAt = 0, intervalStart = 40 * Second\<rparr>"

definition lateOpenGate :: FailureGate where
  "lateOpenGate =
     \<lparr>state = Open, counts = zeroCounts, openedAt = 41 * Second, intervalStart = 40 * Second\<rparr>"



section \<open>Properties of the health checker\<close>

lemma scanChecks_flags:
  "scanChecks cs (u, g) =
     (u \<or> (\<exists>c \<in> set cs. Status (snd c) = StatusUnhealthy),
      g \<or> (\<exists>c \<in> set cs. Status (snd c) = StatusDegraded))"
proof (induction cs arbitrary: u g)
  case Nil
  then show ?case by simp
next
  case (Cons x cs)
  obtain n c where x: "x = (n, c)" by (cases x)
  show ?case
    by (cases "Status c") (auto simp: x Cons.IH)
qed

lemma determineOverallStatus_cases:
  "determineOverallStatus env checks =
     (if (\<exists>c \<in> set checks. Status (snd c) = StatusUnhealthy)
           \<and> \<not> isGracefulDegradationEnabled env
      then StatusUnhealthy
      else if (\<exists>c \<in> set checks. Status (snd c) = StatusUnhealthy
                                \<or> Status (snd c) = StatusDegraded)
      then StatusDegraded
      else StatusHealthy)"
  by (auto simp: determineOverallStatus_def scanChecks_flags)

text \<open>
  C1. Every call of \<open>ReadinessCheck\<close> answers \<open>False\<close> while startup is incomplete.
  Otherwise it runs the database check: if the check is Unhealthy the answer is whether
  graceful degradation is enabled, and if it is not Unhealthy the answer is \<open>True\<close>.
  The second conjunct says when the database check runs: the database state after the
  call is the one the ping leaves exactly when startup is complete, and is untouched
  otherwise. The third says what Unhealthy means for that check: the ping returned an
  error.
\<close>

theorem ReadinessCheck_verdict:
  "fst (ReadinessCheck ping env c d) =
     (if \<not> startup c then False
      else if Status (fst (checkDatabase ping d)) = StatusUnhealthy
      then isGracefulDegradationEnabled env
      else True)
   \<and> snd (snd (ReadinessCheck ping env c d)) = (if startup c then snd (ping d) else d)
   \<and> (Status (fst (checkDatabase ping d)) = StatusUnhealthy) = (fst (ping d) \<noteq> None)"
  by (auto simp: ReadinessCheck_def checkDatabase_def split: prod.splits option.splits)

text \<open>
  C2. For every map of check results (every list of entries, in any order), the overall
  status that \<open>determineOverallStatus\<close> computes is Unhealthy if and only if some check
  is Unhealthy and graceful degradation is disabled; otherwise it is Degraded if some
  check is Unhealthy or Degraded; otherwise it is Healthy. The status of the response of
  \<open>HealthCheck\<close> is that function's value on the response's checks.
\<close>

theorem determineOverallStatus_precedence:
  "determineOverallStatus env checks =
     (if (\<exists>c \<in> set checks. Status (snd c) = StatusUnhealthy)
           \<and> \<not> isGracefulDegradationEnabled env
      then StatusUnhealthy
      else if (\<exists>c \<in> set checks. Status (snd c) = StatusUnhealthy
                                \<or> Status (snd c) = StatusDegraded)
      then StatusDegraded
      else StatusHealthy)
   \<and> (determineOverallStatus env checks = StatusUnhealthy) =
       ((\<exists>c \<in> set checks. Status (snd c) = StatusUnhealthy)
           \<and> \<not> isGracefulDegradationEnabled env)
   \<and> Status_resp (fst (HealthCheck ping env c d)) =
       determineOverallStatus env (Checks (fst (HealthCheck ping env c d)))"
proof (intro conjI)
  show "determineOverallStatus env checks =
     (if (\<exists>c \<in> set checks. Status (snd c) = StatusUnhealthy)
           \<and> \<not> isGracefulDegradationEnabled env
      then StatusUnhealthy
      else if (\<exists>c \<in> set checks. Status (snd c) = StatusUnhealthy
                                \<or> Status (snd c) = StatusDegraded)
      then StatusDegraded
      else StatusHealthy)"
    by (rule determineOverallStatus_cases)
  show "(determineOverallStatus env checks = StatusUnhealthy) =
       ((\<exists>c \<in> set checks. Status (snd c) = StatusUnhealthy)
           \<and> \<not> isGracefulDegradationEnabled env)"
    by (simp add: determineOverallStatus_cases)
  show "Status_resp (fst (HealthCheck ping env c d)) =
       determineOverallStatus env (Checks (fst (HealthCheck ping env c d)))"
    by (simp add: HealthCheck_def Let_def split: prod.splits)
qed

subsection \<open>Runs of the checker\<close>

lemma checkerAfter_Nil: "checkerAfter ping [] s = s"
  by (simp add: checkerAfter_def)

lemma checkerAfter_Cons:
  "checkerAfter ping (x # tr) s = checkerAfter ping tr (snd (checkerStep ping x s))"
  by (simp add: checkerAfter_def)

lemma checkerAfter_append:
  "checkerAfter ping (a @ b) s = checkerAfter ping b (checkerAfter ping a s)"
  by (simp add: checkerAfter_def)

lemma length_checkerRun: "length (checkerRun ping tr s) = length tr"
  by (induction tr arbitrary: s) (simp_all add: Let_def)

lemma checkerRun_nth:
  "i < length tr \<Longrightarrow>
   checkerRun ping tr s ! i = checkerStep ping (tr ! i) (checkerAfter ping (take i tr) s)"
proof (induction tr arbitrary: s i)
  case Nil
  then show ?case by simp
next
  case (Cons x tr)
  show ?case
  proof (cases i)
    case 0
    then show ?thesis by (simp add: Let_def checkerAfter_Nil)
  next
    case (Suc k)
    with Cons.prems have "k < length tr" by simp
    from Cons.IH[OF this] show ?thesis
      by (simp add: Suc Let_def checkerAfter_Cons)
  qed
qed

lemma checkerStep_startTime:
  "startTime (fst (snd (checkerStep ping timed s))) = startTime (fst s)"
  by (cases timed; cases s; cases "snd timed")
     (auto simp: checkerStep_def startupGoroutine_def ReadinessCheck_def
           split: prod.splits)

lemma checkerStep_startup_mono:
  "startup (fst s) \<Longrightarrow> startup (fst (snd (checkerStep ping timed s)))"
  by (cases timed; cases s; cases "snd timed")
     (auto simp: checkerStep_def startupGoroutine_def ReadinessCheck_def
           split: prod.splits)

lemma checkerStep_startup_early:
  "\<not> startup (fst s) \<Longrightarrow> fst timed - startTime (fst s) < 5 * Second \<Longrightarrow>
   \<not> startup (fst (snd (checkerStep ping timed s)))"
  by (cases timed; cases s; cases "snd timed")
     (auto simp: checkerStep_def startupGoroutine_def ReadinessCheck_def
           split: prod.splits)

lemma checkerStep_StartupCheckCall:
  "snd timed = StartupCheckCall \<Longrightarrow>
   checkerStep ping timed s = (BoolReply (startup (fst s)), s)"
  by (cases timed; cases s) (simp add: checkerStep_def StartupCheck_def)

lemma checkerAfter_startup_mono:
  "startup (fst s) \<Longrightarrow> startup (fst (checkerAfter ping tr s))"
  by (induction tr arbitrary: s) (simp_all add: checkerAfter_Nil checkerAfter_Cons checkerStep_startup_mono)

lemma checkerAfter_startup_early:
  "\<not> startup (fst s) \<Longrightarrow> \<forall>x \<in> set tr. fst x - startTime (fst s) < 5 * Second \<Longrightarrow>
   \<not> startup (fst (checkerAfter ping tr s))"
proof (induction tr arbitrary: s)
  case Nil
  then show ?case by (simp add: checkerAfter_Nil)
next
  case (Cons x tr)
  have "\<not> startup (fst (snd (checkerStep ping x s)))"
    using Cons.prems by (simp add: checkerStep_startup_early)
  moreover have "\<forall>y \<in> set tr. fst y - startTime (fst (snd (checkerStep ping x s))) < 5 * Second"
    using Cons.prems by (simp add: checkerStep_startTime)
  ultimately show ?case
    using Cons.IH by (simp add: checkerAfter_Cons)
qed

lemma sorted_take_le:
  assumes "sorted (map fst tr)" and "i < length tr" and "x \<in> set (take i tr)"
  shows "fst x \<le> fst (tr ! i)"
proof -
  from assms(3) obtain k where k: "k < length (take i tr)" and x: "x = take i tr ! k"
    by (auto simp: in_set_conv_nth)
  then have ki: "k < i" and xk: "x = tr ! k" by simp_all
  from assms(1) have "map fst tr ! k \<le> map fst tr ! i"
    using ki assms(2) by (intro sorted_nth_mono) simp_all
  then show ?thesis using ki assms(2) xk by simp
qed

lemma StartupCheck_early:
  assumes "sorted (map fst tr)" and "i < length tr"
    and "snd (tr ! i) = StartupCheckCall" and "fst (tr ! i) - t0 < 5 * Second"
  shows "fst (checkerRun ping tr (NewChecker t0, d) ! i) = BoolReply False"
proof -
  have "\<forall>x \<in> set (take i tr). fst x - startTime (fst (NewChecker t0, d)) < 5 * Second"
    using sorted_take_le[OF assms(1,2)] assms(4) by (fastforce simp: NewChecker_def)
  then have "\<not> startup (fst (checkerAfter ping (take i tr) (NewChecker t0, d)))"
    by (intro checkerAfter_startup_early) (simp_all add: NewChecker_def)
  then show ?thesis
    using assms(2,3) by (simp add: checkerRun_nth checkerStep_StartupCheckCall)
qed

lemma StartupCheck_late:
  assumes "i \<le> j" and "j < length tr"
    and "startup (fst (checkerAfter ping (take i tr) s))"
    and "snd (tr ! j) = StartupCheckCall"
  shows "fst (checkerRun ping tr s ! j) = BoolReply True"
proof -
  from assms(1) have "take j tr = take i tr @ drop i (take j tr)"
    by (metis append_take_drop_id min.absorb_iff1 take_take)
  then have "checkerAfter ping (take j tr) s =
      checkerAfter ping (drop i (take j tr)) (checkerAfter ping (take i tr) s)"
    by (metis checkerAfter_append)
  then have "startup (fst (checkerAfter ping (take j tr) s))"
    using assms(3) by (simp add: checkerAfter_startup_mono)
  then show ?thesis
    using assms(2,4) by (simp add: checkerRun_nth checkerStep_StartupCheckCall)
qed

text \<open>
  C8. \<open>StartupCheck\<close> is monotonic. In a run of a checker built at \<open>t0\<close>, with the
  calls in the order of their times, a startup probe made before five seconds have
  passed since \<open>t0\<close> answers \<open>False\<close>. In any run from any state, once the flag is set
  (in the state before some call \<open>j\<close>), every startup probe from call \<open>j\<close> on answers
  \<open>True\<close>; and after a startup probe has answered \<open>True\<close>, every later one answers
  \<open>True\<close>.
\<close>

theorem StartupCheck_monotonic:
  "(sorted (map fst tr) \<and> i < length tr \<and> snd (tr ! i) = StartupCheckCall
      \<and> fst (tr ! i) - t0 < 5 * Second
     \<longrightarrow> fst (checkerRun ping tr (NewChecker t0, d) ! i) = BoolReply False)
   \<and> (j \<le> k \<and> k < length tr' \<and> startup (fst (checkerAfter ping (take j tr') s))
      \<and> snd (tr' ! k) = StartupCheckCall
     \<longrightarrow> fst (checkerRun ping tr' s ! k) = BoolReply True)
   \<and> (m < n \<and> n < length tr' \<and> snd (tr' ! m) = StartupCheckCall
      \<and> fst (checkerRun ping tr' s ! m) = BoolReply True
      \<and> snd (tr' ! n) = StartupCheckCall
     \<longrightarrow> fst (checkerRun ping tr' s ! n) = BoolReply True)"
proof (intro conjI impI)
  assume "sorted (map fst tr) \<and> i < length tr \<and> snd (tr ! i) = StartupCheckCall
      \<and> fst (tr ! i) - t0 < 5 * Second"
  then show "fst (checkerRun ping tr (NewChecker t0, d) ! i) = BoolReply False"
    by (simp add: StartupCheck_early)
next
  assume "j \<le> k \<and> k < length tr' \<and> startup (fst (checkerAfter ping (take j tr') s))
      \<and> snd (tr' ! k) = StartupCheckCall"
  then show "fst (checkerRun ping tr' s ! k) = BoolReply True"
    by (blast intro: StartupCheck_late)
next
  assume a: "m < n \<and> n < length tr' \<and> snd (tr' ! m) = StartupCheckCall
      \<and> fst (checkerRun ping tr' s ! m) = BoolReply True
      \<and> snd (tr' ! n) = StartupCheckCall"
  then have ml: "m < length tr'" and mc: "snd (tr' ! m) = StartupCheckCall"
    and mr: "fst (checkerRun ping tr' s ! m) = BoolReply True" by simp_all
  from mr have "startup (fst (checkerAfter ping (take m tr') s))"
    by (simp add: checkerRun_nth[OF ml] checkerStep_StartupCheckCall[OF mc])
  with a show "fst (checkerRun ping tr' s ! n) = BoolReply True"
    using StartupCheck_late[of m n tr' ping s] by simp
qed

theorem StartupCheck_monotonic_witness:
  "sorted (map fst demoTrace) \<and> 0 < length demoTrace
   \<and> snd (demoTrace ! 0) = StartupCheckCall \<and> fst (demoTrace ! 0) - 0 < 5 * Second
   \<and> fst (checkerRun (\<lambda>d. (None, d)) demoTrace (NewChecker 0, ()) ! 0) = BoolReply False
   \<and> (2::nat) \<le> 2 \<and> 2 < length demoTrace
   \<and> startup (fst (checkerAfter (\<lambda>d. (None, d)) (take 2 demoTrace) (NewChecker 0, ())))
   \<and> snd (demoTrace ! 2) = StartupCheckCall
   \<and> fst (checkerRun (\<lambda>d. (None, d)) demoTrace (NewChecker 0, ()) ! 2) = BoolReply True
   \<and> (2::nat) < 3 \<and> 3 < length demoTrace \<and> snd (demoTrace ! 3) = StartupCheckCall
   \<and> fst (checkerRun (\<lambda>d. (None, d)) demoTrace (NewChecker 0, ()) ! 3) = BoolReply True"
proof -
  have h1: "sorted (map fst demoTrace) \<and> 0 < length demoTrace
      \<and> snd (demoTrace ! 0) = StartupCheckCall \<and> fst (demoTrace ! 0) - 0 < 5 * Second"
    by (simp add: demoTrace_def Second_def)
  have h2: "(2::nat) \<le> 2 \<and> 2 < length demoTrace
      \<and> startup (fst (checkerAfter (\<lambda>d. (None, d)) (take 2 demoTrace) (NewChecker 0, ())))
      \<and> snd (demoTrace ! 2) = StartupCheckCall"
    by (simp add: demoTrace_def Second_def checkerAfter_def checkerStep_def
          startupGoroutine_def NewChecker_def StartupCheck_def)
  have h3: "(2::nat) < 3 \<and> 3 < length demoTrace \<and> snd (demoTrace ! 2) = StartupCheckCall
      \<and> snd (demoTrace ! 3) = StartupCheckCall"
    by (simp add: demoTrace_def)
  note inst = StartupCheck_monotonic[of demoTrace 0 0 "\<lambda>d. (None, d)" "()" 2 2 demoTrace
      "(NewChecker 0, ())" 2 3]
  from inst h1 have c1: "fst (checkerRun (\<lambda>d. (None, d)) demoTrace (NewChecker 0, ()) ! 0) = BoolReply False"
    by blast
  from inst h2 have c2: "fst (checkerRun (\<lambda>d. (None, d)) demoTrace (NewChecker 0, ()) ! 2) = BoolReply True"
    by blast
  from inst h3 c2 have c3: "fst (checkerRun (\<lambda>d. (None, d)) demoTrace (NewChecker 0, ()) ! 3) = BoolReply True"
    by blast
  from h1 h2 h3 c1 c2 c3 show ?thesis by simp
qed


lemma checkerStep_ready_mono:
  "ready (fst s) \<Longrightarrow> ready (fst (snd (checkerStep ping timed s)))"
  by (cases timed; cases s; cases "snd timed")
     (auto simp: checkerStep_def startupGoroutine_def ReadinessCheck_def
           split: prod.splits)

lemma checkerStep_ready_set:
  "\<not> ready (fst s) \<Longrightarrow> ready (fst (snd (checkerStep ping timed s))) \<Longrightarrow>
   \<exists>env. snd timed = ReadinessCheckCall env \<and> startup (fst s) \<and> fst (ping (snd s)) = None
      \<and> fst (checkerStep ping timed s) = BoolReply True"
  by (cases timed; cases s; cases "snd timed")
     (auto simp: checkerStep_def startupGoroutine_def ReadinessCheck_def checkDatabase_def
           split: prod.splits option.splits if_splits)

lemma ReadinessCheck_healthy:
  "startup c \<Longrightarrow> fst (ping d) = None \<Longrightarrow>
   fst (ReadinessCheck ping env c d) = True \<and> ready (fst (snd (ReadinessCheck ping env c d)))"
  by (auto simp: ReadinessCheck_def checkDatabase_def split: prod.splits option.splits)

lemma ReadinessCheck_degraded:
  "startup c \<Longrightarrow> fst (ping d) \<noteq> None \<Longrightarrow>
   fst (ReadinessCheck ping env c d) = isGracefulDegradationEnabled env
   \<and> fst (snd (ReadinessCheck ping env c d)) = c"
  by (auto simp: ReadinessCheck_def checkDatabase_def split: prod.splits option.splits)

lemma checkerAfter_ready_mono:
  "ready (fst s) \<Longrightarrow> ready (fst (checkerAfter ping tr s))"
  by (induction tr arbitrary: s)
     (simp_all add: checkerAfter_Nil checkerAfter_Cons checkerStep_ready_mono)

lemma checkerAfter_take_Suc:
  "i < length tr \<Longrightarrow>
   checkerAfter ping (take (Suc i) tr) s =
     snd (checkerStep ping (tr ! i) (checkerAfter ping (take i tr) s))"
  by (simp add: take_Suc_conv_app_nth checkerAfter_append checkerAfter_Cons checkerAfter_Nil)

lemma checkerAfter_take_le:
  assumes "i \<le> j"
  shows "checkerAfter ping (take j tr) s =
      checkerAfter ping (drop i (take j tr)) (checkerAfter ping (take i tr) s)"
proof -
  from assms have "take j tr = take i tr @ drop i (take j tr)"
    by (metis append_take_drop_id min.absorb_iff1 take_take)
  then show ?thesis by (metis checkerAfter_append)
qed

lemma ready_after_healthy_check:
  assumes "i < j" and "j \<le> length tr"
    and "snd (tr ! i) = ReadinessCheckCall env"
    and "startup (fst (checkerAfter ping (take i tr) s))"
    and "fst (ping (snd (checkerAfter ping (take i tr) s))) = None"
  shows "ready (fst (checkerAfter ping (take j tr) s))"
proof -
  obtain c d where cd: "checkerAfter ping (take i tr) s = (c, d)"
    by (cases "checkerAfter ping (take i tr) s")
  obtain t where t: "tr ! i = (t, ReadinessCheckCall env)"
    using assms(3) by (cases "tr ! i") simp
  from assms(1,2) have il: "i < length tr" by simp
  have "ready (fst (snd (checkerStep ping (tr ! i) (c, d))))"
    using ReadinessCheck_healthy[of c ping d env] assms(4,5) cd
    by (auto simp: checkerStep_def t split: prod.splits)
  then have "ready (fst (checkerAfter ping (take (Suc i) tr) s))"
    by (simp add: checkerAfter_take_Suc[OF il] cd)
  moreover from assms(1) have "Suc i \<le> j" by simp
  ultimately show ?thesis
    by (simp add: checkerAfter_take_le[of "Suc i" j] checkerAfter_ready_mono)
qed


lemma envOff_disabled: "\<not> isGracefulDegradationEnabled envOff"
  unfolding envOff_def by code_simp

lemmas run_eval = readyTrace_def readyStart_def scriptedPing_def Second_def checkerAfter_def
  checkerStep_def startupGoroutine_def NewChecker_def ReadinessCheck_def checkDatabase_def
  envOff_disabled IsReady_def

text \<open>
  C10. The checker's \<open>ready\<close> flag is monotonic and one-sided. No call sets it back to
  \<open>False\<close>. A call that sets it is a \<open>ReadinessCheck\<close> made after startup whose database
  ping returned no error, and that call answers \<open>True\<close>. A \<open>ReadinessCheck\<close> whose ping
  fails (the degradation path) answers whether degradation is enabled and leaves the flag
  as it was. Hence, in any run, after one readiness check on the healthy path every
  \<open>IsReady\<close> answers \<open>True\<close>, and a later readiness check whose ping fails with
  degradation disabled answers \<open>False\<close> while \<open>IsReady\<close> still holds.
\<close>

theorem ready_flag_one_sided:
  "(ready (fst s) \<longrightarrow> ready (fst (snd (checkerStep ping timed s))))
   \<and> (\<not> ready (fst s') \<and> ready (fst (snd (checkerStep ping timed' s')))
     \<longrightarrow> (\<exists>env. snd timed' = ReadinessCheckCall env \<and> startup (fst s')
            \<and> fst (ping (snd s')) = None
            \<and> fst (checkerStep ping timed' s') = BoolReply True))
   \<and> (startup c \<and> fst (ping d) \<noteq> None
     \<longrightarrow> fst (ReadinessCheck ping env1 c d) = isGracefulDegradationEnabled env1
       \<and> ready (fst (snd (ReadinessCheck ping env1 c d))) = ready c)
   \<and> (i < j \<and> j < length tr \<and> snd (tr ! i) = ReadinessCheckCall env2
      \<and> startup (fst (checkerAfter ping (take i tr) s0))
      \<and> fst (ping (snd (checkerAfter ping (take i tr) s0))) = None
      \<and> snd (tr ! j) = IsReadyCall
     \<longrightarrow> fst (checkerRun ping tr s0 ! j) = BoolReply True)
   \<and> (i' < j' \<and> j' < length tr' \<and> snd (tr' ! i') = ReadinessCheckCall env3
      \<and> startup (fst (checkerAfter ping (take i' tr') s1))
      \<and> fst (ping (snd (checkerAfter ping (take i' tr') s1))) = None
      \<and> snd (tr' ! j') = ReadinessCheckCall env4
      \<and> fst (ping (snd (checkerAfter ping (take j' tr') s1))) \<noteq> None
      \<and> \<not> isGracefulDegradationEnabled env4
     \<longrightarrow> fst (checkerRun ping tr' s1 ! j') = BoolReply False
       \<and> IsReady (fst (snd (checkerRun ping tr' s1 ! j'))))"
proof (intro conjI impI)
  assume "ready (fst s)"
  then show "ready (fst (snd (checkerStep ping timed s)))"
    by (rule checkerStep_ready_mono)
next
  assume "\<not> ready (fst s') \<and> ready (fst (snd (checkerStep ping timed' s')))"
  then show "\<exists>env. snd timed' = ReadinessCheckCall env \<and> startup (fst s')
            \<and> fst (ping (snd s')) = None
            \<and> fst (checkerStep ping timed' s') = BoolReply True"
    using checkerStep_ready_set[of s' ping timed'] by blast
next
  assume "startup c \<and> fst (ping d) \<noteq> None"
  then show "fst (ReadinessCheck ping env1 c d) = isGracefulDegradationEnabled env1"
    and "ready (fst (snd (ReadinessCheck ping env1 c d))) = ready c"
    using ReadinessCheck_degraded[of c ping d env1] by simp_all
next
  assume a: "i < j \<and> j < length tr \<and> snd (tr ! i) = ReadinessCheckCall env2
      \<and> startup (fst (checkerAfter ping (take i tr) s0))
      \<and> fst (ping (snd (checkerAfter ping (take i tr) s0))) = None
      \<and> snd (tr ! j) = IsReadyCall"
  then have r: "ready (fst (checkerAfter ping (take j tr) s0))"
    by (intro ready_after_healthy_check[of i j tr env2]) simp_all
  obtain t where t: "tr ! j = (t, IsReadyCall)"
    using a by (cases "tr ! j") simp
  from a have jl: "j < length tr" by simp
  show "fst (checkerRun ping tr s0 ! j) = BoolReply True"
    using r by (auto simp: checkerRun_nth[OF jl] t checkerStep_def IsReady_def split: prod.splits)
next
  assume a: "i' < j' \<and> j' < length tr' \<and> snd (tr' ! i') = ReadinessCheckCall env3
      \<and> startup (fst (checkerAfter ping (take i' tr') s1))
      \<and> fst (ping (snd (checkerAfter ping (take i' tr') s1))) = None
      \<and> snd (tr' ! j') = ReadinessCheckCall env4
      \<and> fst (ping (snd (checkerAfter ping (take j' tr') s1))) \<noteq> None
      \<and> \<not> isGracefulDegradationEnabled env4"
  then have r: "ready (fst (checkerAfter ping (take j' tr') s1))"
    by (intro ready_after_healthy_check[of i' j' tr' env3]) simp_all
  from a have "i' \<le> j'" by simp
  then have su: "startup (fst (checkerAfter ping (take j' tr') s1))"
    using a by (simp add: checkerAfter_take_le[of i' j'] checkerAfter_startup_mono)
  obtain c' d' where cd: "checkerAfter ping (take j' tr') s1 = (c', d')"
    by (cases "checkerAfter ping (take j' tr') s1")
  obtain t where t: "tr' ! j' = (t, ReadinessCheckCall env4)"
    using a by (cases "tr' ! j'") simp
  from a have jl: "j' < length tr'" by simp
  have deg: "fst (ReadinessCheck ping env4 c' d') = False
      \<and> fst (snd (ReadinessCheck ping env4 c' d')) = c'"
    using ReadinessCheck_degraded[of c' ping d' env4] su a cd by simp
  have run: "checkerRun ping tr' s1 ! j' =
      (case ReadinessCheck ping env4 c' d' of (b, c'', d'') \<Rightarrow> (BoolReply b, c'', d''))"
    by (simp add: checkerRun_nth[OF jl] t cd checkerStep_def)
  show "fst (checkerRun ping tr' s1 ! j') = BoolReply False"
    using deg by (auto simp: run split: prod.splits)
  show "IsReady (fst (snd (checkerRun ping tr' s1 ! j')))"
    using deg r cd by (auto simp: run IsReady_def split: prod.splits)
qed

theorem ready_flag_one_sided_witness:
  "ready (fst (checkerAfter scriptedPing (take 4 readyTrace) readyStart))
   \<and> ready (fst (snd (checkerStep scriptedPing (readyTrace ! 4)
                       (checkerAfter scriptedPing (take 4 readyTrace) readyStart))))
   \<and> \<not> ready (fst (checkerAfter scriptedPing (take 2 readyTrace) readyStart))
   \<and> ready (fst (snd (checkerStep scriptedPing (readyTrace ! 2)
                       (checkerAfter scriptedPing (take 2 readyTrace) readyStart))))
   \<and> (\<exists>env. snd (readyTrace ! 2) = ReadinessCheckCall env
         \<and> startup (fst (checkerAfter scriptedPing (take 2 readyTrace) readyStart))
         \<and> fst (scriptedPing (snd (checkerAfter scriptedPing (take 2 readyTrace) readyStart))) = None
         \<and> fst (checkerStep scriptedPing (readyTrace ! 2)
                  (checkerAfter scriptedPing (take 2 readyTrace) readyStart)) = BoolReply True)
   \<and> startup (fst (checkerAfter scriptedPing (take 3 readyTrace) readyStart))
   \<and> fst (scriptedPing (snd (checkerAfter scriptedPing (take 3 readyTrace) readyStart))) \<noteq> None
   \<and> fst (ReadinessCheck scriptedPing envOff
            (fst (checkerAfter scriptedPing (take 3 readyTrace) readyStart))
            (snd (checkerAfter scriptedPing (take 3 readyTrace) readyStart)))
       = isGracefulDegradationEnabled envOff
   \<and> (2::nat) < 4 \<and> 4 < length readyTrace \<and> snd (readyTrace ! 4) = IsReadyCall
   \<and> fst (checkerRun scriptedPing readyTrace readyStart ! 4) = BoolReply True
   \<and> (2::nat) < 3 \<and> 3 < length readyTrace
   \<and> snd (readyTrace ! 3) = ReadinessCheckCall envOff
   \<and> \<not> isGracefulDegradationEnabled envOff
   \<and> fst (checkerRun scriptedPing readyTrace readyStart ! 3) = BoolReply False
   \<and> IsReady (fst (snd (checkerRun scriptedPing readyTrace readyStart ! 3)))"
proof -
  let ?b2 = "checkerAfter scriptedPing (take 2 readyTrace) readyStart"
  let ?b3 = "checkerAfter scriptedPing (take 3 readyTrace) readyStart"
  let ?b4 = "checkerAfter scriptedPing (take 4 readyTrace) readyStart"
  note inst = ready_flag_one_sided[of ?b4 scriptedPing "readyTrace ! 4" ?b2 "readyTrace ! 2"
      "fst ?b3" "snd ?b3" envOff 2 4 readyTrace envOff readyStart 2 3 readyTrace envOff
      readyStart envOff]
  have b2: "?b2 = (\<lparr>startTime = 0, ready = False, startup = True\<rparr>,
                  [None, Some (OpError ''connection refused'')])"
    by (simp add: run_eval)
  have b3: "?b3 = (\<lparr>startTime = 0, ready = True, startup = True\<rparr>,
                  [Some (OpError ''connection refused'')])"
    by (simp add: run_eval)
  have b4: "?b4 = (\<lparr>startTime = 0, ready = True, startup = True\<rparr>, [])"
    by (simp add: run_eval)
  have n: "readyTrace ! 2 = (7 * Second, ReadinessCheckCall envOff)"
    "readyTrace ! 3 = (8 * Second, ReadinessCheckCall envOff)"
    "readyTrace ! 4 = (9 * Second, IsReadyCall)" "length readyTrace = 5"
    by (simp_all add: readyTrace_def)
  have h1: "ready (fst ?b4)" by (simp add: b4)
  have h2: "\<not> ready (fst ?b2) \<and> ready (fst (snd (checkerStep scriptedPing (readyTrace ! 2) ?b2)))"
    by (simp add: b2 n checkerStep_def ReadinessCheck_def checkDatabase_def scriptedPing_def)
  have h3: "startup (fst ?b3) \<and> fst (scriptedPing (snd ?b3)) \<noteq> None"
    by (simp add: b3 scriptedPing_def)
  have h4: "(2::nat) < 4 \<and> 4 < length readyTrace \<and> snd (readyTrace ! 2) = ReadinessCheckCall envOff
      \<and> startup (fst ?b2) \<and> fst (scriptedPing (snd ?b2)) = None
      \<and> snd (readyTrace ! 4) = IsReadyCall"
    by (simp add: b2 n scriptedPing_def)
  have h5: "(2::nat) < 3 \<and> 3 < length readyTrace \<and> snd (readyTrace ! 2) = ReadinessCheckCall envOff
      \<and> startup (fst ?b2) \<and> fst (scriptedPing (snd ?b2)) = None
      \<and> snd (readyTrace ! 3) = ReadinessCheckCall envOff
      \<and> fst (scriptedPing (snd ?b3)) \<noteq> None
      \<and> \<not> isGracefulDegradationEnabled envOff"
    by (simp add: b2 b3 n scriptedPing_def envOff_disabled)
  from inst h1 have c1: "ready (fst (snd (checkerStep scriptedPing (readyTrace ! 4) ?b4)))"
    by blast
  from inst h2 have c2: "\<exists>env. snd (readyTrace ! 2) = ReadinessCheckCall env
         \<and> startup (fst ?b2) \<and> fst (scriptedPing (snd ?b2)) = None
         \<and> fst (checkerStep scriptedPing (readyTrace ! 2) ?b2) = BoolReply True"
    by blast
  from inst h3 have c3: "fst (ReadinessCheck scriptedPing envOff (fst ?b3) (snd ?b3))
       = isGracefulDegradationEnabled envOff"
    by blast
  from inst h4 have c4: "fst (checkerRun scriptedPing readyTrace readyStart ! 4) = BoolReply True"
    by blast
  from inst h5 have c5: "fst (checkerRun scriptedPing readyTrace readyStart ! 3) = BoolReply False
       \<and> IsReady (fst (snd (checkerRun scriptedPing readyTrace readyStart ! 3)))"
    by blast
  show ?thesis
    using h1 h2 h3 h4 h5 c1 c2 c3 c4 c5 by simp
qed

section \<open>Properties of the degradation flag\<close>

text \<open>
  C9. The handlers' degradation flag is constantly \<open>True\<close>: their feature list is a
  literal, so no environment changes it. The checker's flag is computed from the
  environment variable \<open>FEATURE_FLAGS\<close> alone: two environments that agree on it give the
  same flag, the unset variable gives \<open>True\<close> and the value \<open>circuit_breaker\<close> gives
  \<open>False\<close>. So there is an environment in which the two components disagree.
\<close>

theorem degradation_flags_disagree:
  "Handler_isGracefulDegradationEnabled
   \<and> (Getenv env ''FEATURE_FLAGS'' = Getenv env' ''FEATURE_FLAGS''
       \<longrightarrow> isGracefulDegradationEnabled env = isGracefulDegradationEnabled env')
   \<and> isGracefulDegradationEnabled Map.empty
   \<and> \<not> isGracefulDegradationEnabled envOff
   \<and> (\<exists>e. isGracefulDegradationEnabled e \<noteq> Handler_isGracefulDegradationEnabled)"
proof (intro conjI impI)
  show h: "Handler_isGracefulDegradationEnabled"
    by (simp add: Handler_isGracefulDegradationEnabled_def Handler_getEnabledFeatures_def)
  show "isGracefulDegradationEnabled Map.empty" by code_simp
  show off: "\<not> isGracefulDegradationEnabled envOff" by (rule envOff_disabled)
  from h off show "\<exists>e. isGracefulDegradationEnabled e \<noteq> Handler_isGracefulDegradationEnabled"
    by blast
next
  assume "Getenv env ''FEATURE_FLAGS'' = Getenv env' ''FEATURE_FLAGS''"
  then show "isGracefulDegradationEnabled env = isGracefulDegradationEnabled env'"
    by (simp add: isGracefulDegradationEnabled_def getEnabledFeatures_def getEnvOrDefault_def)
qed

theorem degradation_flags_disagree_witness:
  "Getenv envOff ''FEATURE_FLAGS'' = Getenv (envOff(''APP_VERSION'' \<mapsto> ''2.0'')) ''FEATURE_FLAGS''
   \<and> isGracefulDegradationEnabled envOff
        = isGracefulDegradationEnabled (envOff(''APP_VERSION'' \<mapsto> ''2.0''))
   \<and> Handler_isGracefulDegradationEnabled
   \<and> \<not> isGracefulDegradationEnabled envOff"
proof -
  have h: "Getenv envOff ''FEATURE_FLAGS''
      = Getenv (envOff(''APP_VERSION'' \<mapsto> ''2.0'')) ''FEATURE_FLAGS''"
    by (simp add: Getenv_def envOff_def)
  from degradation_flags_disagree[of envOff "envOff(''APP_VERSION'' \<mapsto> ''2.0'')"] h
  show ?thesis by blast
qed

section \<open>Properties of the shutdown manager\<close>

lemma runHooks_log:
  "runHooks i fns w = (lg, w', sent) \<Longrightarrow>
   distinct lg \<and>
   (\<forall>x \<in> set lg. (\<exists>k. i < k \<and> x = ExecutingShutdownHook k)
                  \<or> (\<exists>k e. x = ShutdownHookFailedLog k e))"
proof (induction fns arbitrary: i w lg w' sent)
  case Nil
  then show ?case by simp
next
  case (Cons fn fns)
  obtain r w1 where f: "fn w = (r, w1)" by (cases "fn w")
  show ?case
  proof (cases r)
    case (Some err)
    with Cons.prems f show ?thesis by auto
  next
    case None
    obtain lg2 w2 s2 where rec: "runHooks (i + 1) fns w1 = (lg2, w2, s2)"
      by (cases "runHooks (i + 1) fns w1")
    from Cons.IH[OF rec] have d: "distinct lg2"
      and m: "\<forall>x \<in> set lg2. (\<exists>k. i + 1 < k \<and> x = ExecutingShutdownHook k)
                  \<or> (\<exists>k e. x = ShutdownHookFailedLog k e)" by simp_all
    from Cons.prems f None rec have lg: "lg = ExecutingShutdownHook (i + 1) # lg2" by simp
    have "ExecutingShutdownHook (i + 1) \<notin> set lg2" using m by fastforce
    moreover have "\<forall>x \<in> set lg2. (\<exists>k. i < k \<and> x = ExecutingShutdownHook k)
                  \<or> (\<exists>k e. x = ShutdownHookFailedLog k e)"
      using m by (metis add_lessD1)
    ultimately show ?thesis using d lg by auto
  qed
qed

lemma teardown_log:
  assumes "teardown m w = (lg, w', sent)"
  shows "distinct lg \<and> count_list lg StoppingHTTPServer = 1"
proof -
  obtain r w1 where s: "server m w = (r, w1)" by (cases "server m w")
  show ?thesis
  proof (cases r)
    case (Some err)
    with assms s show ?thesis by (auto simp: teardown_def)
  next
    case None
    obtain lg2 w2 s2 where rh: "runHooks 0 (shutdownFn m) w1 = (lg2, w2, s2)"
      by (cases "runHooks 0 (shutdownFn m) w1")
    from runHooks_log[OF rh] have d: "distinct lg2"
      and mem: "\<forall>x \<in> set lg2. (\<exists>k. x = ExecutingShutdownHook k)
                  \<or> (\<exists>k e. x = ShutdownHookFailedLog k e)" by auto
    have c0: "count_list lg2 StoppingHTTPServer = 0"
      using mem by (auto simp: count_list_0_iff)
    obtain r3 w3 where dbr: "db m w2 = (r3, w3)" by (cases "db m w2")
    from assms s None rh dbr d mem c0 show ?thesis
      by (cases s2; cases r3) (auto simp: teardown_def)
  qed
qed

lemma Shutdown_again: "isShutdown m \<Longrightarrow> Shutdown b m w = (None, m, w, [])"
  by (simp add: Shutdown_def)

lemma Shutdown_sets_flag: "isShutdown (fst (snd (Shutdown b m w)))"
  by (simp add: Shutdown_def Let_def split: prod.splits)

lemma managerRun_after_shutdown:
  "isShutdown m \<Longrightarrow> managerRun calls m w = (rs, m', w', lg) \<Longrightarrow>
   w' = w \<and> lg = [] \<and> isShutdown m' \<and> length rs = length calls
   \<and> (\<forall>i < length calls. \<forall>b. calls ! i = ShutdownCall b \<longrightarrow> rs ! i = ShutdownReturned None)"
proof (induction calls m w arbitrary: rs m' w' lg rule: managerRun.induct)
  case (1 m w)
  then show ?case by simp
next
  case (2 fn rest m w)
  obtain rs2 m2 w2 lg2 where r: "managerRun rest (AddShutdownHook m fn) w = (rs2, m2, w2, lg2)"
    by (cases "managerRun rest (AddShutdownHook m fn) w") auto
  have "isShutdown (AddShutdownHook m fn)" using "2.prems"(1) by (simp add: AddShutdownHook_def)
  from "2.IH"[OF this r] "2.prems"(2) r show ?case
    by (auto simp: nth_Cons split: nat.splits)
next
  case (3 b rest m w)
  have s: "Shutdown b m w = (None, m, w, [])" using "3.prems"(1) by (rule Shutdown_again)
  obtain rs2 m2 w2 lg2 where r: "managerRun rest m w = (rs2, m2, w2, lg2)"
    by (cases "managerRun rest m w") auto
  from "3.IH"[OF s[symmetric] refl refl "3.prems"(1) r] "3.prems"(2) r s show ?case
    by (auto simp: nth_Cons split: nat.splits)
next
  case (4 rest m w)
  obtain rs2 m2 w2 lg2 where r: "managerRun rest m w = (rs2, m2, w2, lg2)"
    by (cases "managerRun rest m w") auto
  from "4.IH"[OF "4.prems"(1) r] "4.prems"(2) r show ?case
    by (auto simp: nth_Cons split: nat.splits)
qed

lemmas manager_eval = goodManager_def badManager_def NewManager_def AddShutdownHook_def
  Shutdown_def teardown_def okServer_def okDB_def hookA_def hookBad_def hookC_def
  laterCalls_def IsShutdown_def

lemma good_shutdown:
  "Shutdown False goodManager [] =
     (None, goodManager\<lparr>isShutdown := True\<rparr>,
      [''server stopped'', ''hook A ran'', ''database closed''],
      [StoppingHTTPServer, HTTPServerStopped, ExecutingShutdownHooks, ExecutingShutdownHook 1,
       ClosingDatabaseConnections, DatabaseConnectionsClosed, PerformingFinalCleanup])"
  by (simp add: manager_eval)

text \<open>
  C5. \<open>Shutdown\<close> is idempotent. On a manager whose \<open>isShutdown\<close> flag is set (shutdown
  begun or finished) a call returns nil at once: the manager, the world and the log are
  untouched. Every call leaves the flag set. So in any sequence of calls that starts with
  a \<open>Shutdown\<close> on a fresh manager, whatever follows it, the world and the log at the end
  are those of the first call, no line of the log is written twice, the server is
  stopped exactly once, and every later \<open>Shutdown\<close> returns nil. The mutex makes the
  guard of each call atomic, so concurrent calls pass the guard in some order, which is
  the order of the list.
\<close>

theorem Shutdown_idempotent:
  "(isShutdown m \<longrightarrow> Shutdown b m w = (None, m, w, []))
   \<and> isShutdown (fst (snd (Shutdown b m w)))
   \<and> (\<not> isShutdown m0 \<and> Shutdown b0 m0 w0 = (ret, m1, w1, lg1)
        \<and> managerRun (ShutdownCall b0 # calls) m0 w0 = (rs, m', w', lg)
      \<longrightarrow> w' = w1 \<and> lg = lg1 \<and> distinct lg \<and> count_list lg StoppingHTTPServer = 1
        \<and> rs ! 0 = ShutdownReturned ret
        \<and> (\<forall>i < length calls. \<forall>b'. calls ! i = ShutdownCall b'
              \<longrightarrow> rs ! Suc i = ShutdownReturned None))"
proof (intro conjI impI)
  assume "isShutdown m"
  then show "Shutdown b m w = (None, m, w, [])" by (rule Shutdown_again)
next
  show "isShutdown (fst (snd (Shutdown b m w)))" by (rule Shutdown_sets_flag)
next
  assume a: "\<not> isShutdown m0 \<and> Shutdown b0 m0 w0 = (ret, m1, w1, lg1)
        \<and> managerRun (ShutdownCall b0 # calls) m0 w0 = (rs, m', w', lg)"
  then have sh: "Shutdown b0 m0 w0 = (ret, m1, w1, lg1)" and n: "\<not> isShutdown m0" by simp_all
  obtain rs2 m2 w2 lg2 where r: "managerRun calls m1 w1 = (rs2, m2, w2, lg2)"
    by (cases "managerRun calls m1 w1") auto
  have m1: "isShutdown m1" using Shutdown_sets_flag[of b0 m0 w0] sh by simp
  note after = managerRun_after_shutdown[OF m1 r]
  from a sh r have rs: "rs = ShutdownReturned ret # rs2" and w': "w' = w2" and lg: "lg = lg1 @ lg2"
    by simp_all
  obtain tl tw ts where td: "teardown (m0\<lparr>isShutdown := True\<rparr>) w0 = (tl, tw, ts)"
    by (cases "teardown (m0\<lparr>isShutdown := True\<rparr>) w0") auto
  with sh n have "lg1 = tl" by (simp add: Shutdown_def)
  with teardown_log[OF td] have dl: "distinct lg1 \<and> count_list lg1 StoppingHTTPServer = 1" by simp
  show "w' = w1" using after w' by simp
  show "lg = lg1" using after lg by simp
  show "distinct lg" using after lg dl by simp
  show "count_list lg StoppingHTTPServer = 1" using after lg dl by simp
  show "rs ! 0 = ShutdownReturned ret" using rs by simp
  show "\<forall>i < length calls. \<forall>b'. calls ! i = ShutdownCall b'
              \<longrightarrow> rs ! Suc i = ShutdownReturned None"
    using after rs by simp
qed

theorem Shutdown_idempotent_witness:
  "isShutdown (goodManager\<lparr>isShutdown := True\<rparr>)
   \<and> Shutdown True (goodManager\<lparr>isShutdown := True\<rparr>) [''x''] =
        (None, goodManager\<lparr>isShutdown := True\<rparr>, [''x''], [])
   \<and> \<not> isShutdown goodManager
   \<and> fst (snd (snd (managerRun (ShutdownCall False # laterCalls) goodManager []))) =
        [''server stopped'', ''hook A ran'', ''database closed'']
   \<and> snd (snd (snd (managerRun (ShutdownCall False # laterCalls) goodManager []))) =
        [StoppingHTTPServer, HTTPServerStopped, ExecutingShutdownHooks, ExecutingShutdownHook 1,
         ClosingDatabaseConnections, DatabaseConnectionsClosed, PerformingFinalCleanup]
   \<and> 0 < length laterCalls \<and> laterCalls ! 0 = ShutdownCall False
   \<and> fst (managerRun (ShutdownCall False # laterCalls) goodManager []) ! Suc 0
        = ShutdownReturned None
   \<and> 2 < length laterCalls \<and> laterCalls ! 2 = ShutdownCall True
   \<and> fst (managerRun (ShutdownCall False # laterCalls) goodManager []) ! Suc 2
        = ShutdownReturned None"
proof -
  let ?run = "managerRun (ShutdownCall False # laterCalls) goodManager []"
  note inst = Shutdown_idempotent[of "goodManager\<lparr>isShutdown := True\<rparr>" True "[''x'']"
      goodManager False "[]" None "goodManager\<lparr>isShutdown := True\<rparr>"
      "[''server stopped'', ''hook A ran'', ''database closed'']"
      "[StoppingHTTPServer, HTTPServerStopped, ExecutingShutdownHooks, ExecutingShutdownHook 1,
        ClosingDatabaseConnections, DatabaseConnectionsClosed, PerformingFinalCleanup]"
      laterCalls "fst ?run" "fst (snd ?run)" "fst (snd (snd ?run))" "snd (snd (snd ?run))"]
  have h1: "isShutdown (goodManager\<lparr>isShutdown := True\<rparr>)" by simp
  have h2: "\<not> isShutdown goodManager" by (simp add: manager_eval)
  have h3: "?run = (fst ?run, fst (snd ?run), fst (snd (snd ?run)), snd (snd (snd ?run)))"
    by simp
  have h4: "0 < length laterCalls \<and> laterCalls ! 0 = ShutdownCall False
      \<and> 2 < length laterCalls \<and> laterCalls ! 2 = ShutdownCall True"
    by (simp add: laterCalls_def)
  from inst h1 have c1: "Shutdown True (goodManager\<lparr>isShutdown := True\<rparr>) [''x''] =
        (None, goodManager\<lparr>isShutdown := True\<rparr>, [''x''], [])" by blast
  from inst h2 h3 good_shutdown have c2:
    "fst (snd (snd ?run)) = [''server stopped'', ''hook A ran'', ''database closed'']
     \<and> snd (snd (snd ?run)) =
        [StoppingHTTPServer, HTTPServerStopped, ExecutingShutdownHooks, ExecutingShutdownHook 1,
         ClosingDatabaseConnections, DatabaseConnectionsClosed, PerformingFinalCleanup]
     \<and> (\<forall>i < length laterCalls. \<forall>b'. laterCalls ! i = ShutdownCall b'
              \<longrightarrow> fst ?run ! Suc i = ShutdownReturned None)"
    by blast
  with h4 have c3: "fst ?run ! Suc 0 = ShutdownReturned None"
    and c4: "fst ?run ! Suc 2 = ShutdownReturned None" by blast+
  from h1 h2 h4 c1 c2 c3 c4 show ?thesis by simp
qed

lemma upt_shift_head: "[i + 1 ..< i + 1 + Suc n] = (i + 1) # [i + 1 + 1 ..< i + 1 + 1 + n]"
  by (subst upt_rec) simp

lemma runHooks_all_ok:
  "runHooks i fns w = (lg, w', None) \<Longrightarrow>
   lg = map ExecutingShutdownHook [i + 1 ..< i + 1 + length fns]
   \<and> w' = foldl (\<lambda>w fn. snd (fn w)) w fns"
proof (induction fns arbitrary: i w lg w')
  case Nil
  then show ?case by simp
next
  case (Cons fn fns)
  obtain r w1 where f: "fn w = (r, w1)" by (cases "fn w")
  show ?case
  proof (cases r)
    case (Some err)
    with Cons.prems f show ?thesis by simp
  next
    case None
    obtain lg2 w2 s2 where rec: "runHooks (i + 1) fns w1 = (lg2, w2, s2)"
      by (cases "runHooks (i + 1) fns w1")
    from Cons.prems f None rec have s2: "s2 = None" and lg: "lg = ExecutingShutdownHook (i + 1) # lg2"
      and w': "w' = w2" by simp_all
    from Cons.IH[OF rec[unfolded s2]] have
      "lg2 = map ExecutingShutdownHook [i + 1 + 1 ..< i + 1 + 1 + length fns]"
      and "w2 = foldl (\<lambda>w fn. snd (fn w)) w1 fns" by simp_all
    then show ?thesis using lg w' f upt_shift_head[of i "length fns"] by simp
  qed
qed

lemma runHooks_first_failure:
  "runHooks i pre w = (lgpre, w2, None) \<Longrightarrow> fn w2 = (Some e, w3) \<Longrightarrow>
   runHooks i (pre @ fn # post) w =
     (lgpre @ [ExecutingShutdownHook (i + length pre + 1),
               ShutdownHookFailedLog (i + length pre + 1) e],
      w3, Some (ShutdownHookFailed (i + length pre + 1) e))"
proof (induction pre arbitrary: i w lgpre)
  case Nil
  then show ?case by simp
next
  case (Cons h pre)
  obtain r w1 where f: "h w = (r, w1)" by (cases "h w")
  show ?case
  proof (cases r)
    case (Some err)
    with Cons.prems f show ?thesis by simp
  next
    case None
    obtain lg2 wx s2 where rec: "runHooks (i + 1) pre w1 = (lg2, wx, s2)"
      by (cases "runHooks (i + 1) pre w1")
    from Cons.prems(1) f None rec have s2: "s2 = None" and lg: "lgpre = ExecutingShutdownHook (i + 1) # lg2"
      and wx: "wx = w2" by simp_all
    from Cons.IH[OF rec[unfolded s2 wx] Cons.prems(2)] show ?thesis
      using f None lg by simp
  qed
qed

text \<open>
  C6, as the code has it. For every list of registered hooks, \<open>Shutdown\<close> runs the hooks
  in registration order after it has stopped the HTTP server: if all of them succeed,
  the log lists them as hooks \<open>1, 2, ...\<close> after the server's lines and the world is the
  one the hooks leave when applied in that order. If the hooks before some hook succeed
  and that hook returns an error, no later hook runs and the database is not closed (the
  log ends with the failing hook's line and the world is the one that hook left), and
  \<open>Shutdown\<close> returns a non-nil error: the error that names the failing hook when the
  goroutine's result is received, and the context's error when the \<open>select\<close> takes
  \<open><-ctx.Done()\<close> first.
\<close>

theorem Shutdown_hook_failure:
  "(\<not> isShutdown m \<and> server m w = (None, w1)
      \<and> runHooks 0 (shutdownFn m) w1 = (lg, w2, None)
     \<longrightarrow> lg = map ExecutingShutdownHook [1 ..< length (shutdownFn m) + 1]
       \<and> w2 = foldl (\<lambda>w fn. snd (fn w)) w1 (shutdownFn m)
       \<and> (\<exists>rest. snd (snd (snd (Shutdown b m w))) =
             [StoppingHTTPServer, HTTPServerStopped, ExecutingShutdownHooks] @ lg @ rest))
   \<and> (\<not> isShutdown m' \<and> shutdownFn m' = pre @ fn # post \<and> server m' w' = (None, w1')
      \<and> runHooks 0 pre w1' = (lgpre, w2', None) \<and> fn w2' = (Some e, w3)
     \<longrightarrow> Shutdown b' m' w' =
           (if b' then Some ContextErr else Some (ShutdownHookFailed (length pre + 1) e),
            m'\<lparr>isShutdown := True\<rparr>, w3,
            [StoppingHTTPServer, HTTPServerStopped, ExecutingShutdownHooks]
              @ map ExecutingShutdownHook [1 ..< length pre + 2]
              @ [ShutdownHookFailedLog (length pre + 1) e])
       \<and> w3 = snd (fn (foldl (\<lambda>w fn. snd (fn w)) w1' pre)))"
proof (intro conjI impI)
  assume a: "\<not> isShutdown m \<and> server m w = (None, w1)
      \<and> runHooks 0 (shutdownFn m) w1 = (lg, w2, None)"
  then have rh: "runHooks 0 (shutdownFn m) w1 = (lg, w2, None)" by simp
  from runHooks_all_ok[OF rh]
  show "lg = map ExecutingShutdownHook [1 ..< length (shutdownFn m) + 1]"
    and "w2 = foldl (\<lambda>w fn. snd (fn w)) w1 (shutdownFn m)" by simp_all
  obtain r3 wd where dbr: "db m w2 = (r3, wd)" by (cases "db m w2")
  show "\<exists>rest. snd (snd (snd (Shutdown b m w))) =
             [StoppingHTTPServer, HTTPServerStopped, ExecutingShutdownHooks] @ lg @ rest"
    using a dbr by (cases r3) (simp_all add: Shutdown_def teardown_def)
next
  assume a: "\<not> isShutdown m' \<and> shutdownFn m' = pre @ fn # post \<and> server m' w' = (None, w1')
      \<and> runHooks 0 pre w1' = (lgpre, w2', None) \<and> fn w2' = (Some e, w3)"
  then have rp: "runHooks 0 pre w1' = (lgpre, w2', None)" and f: "fn w2' = (Some e, w3)"
    by simp_all
  from runHooks_all_ok[OF rp] have lp: "lgpre = map ExecutingShutdownHook [1 ..< length pre + 1]"
    and w2': "w2' = foldl (\<lambda>w fn. snd (fn w)) w1' pre" by simp_all
  from runHooks_first_failure[of 0 pre w1' lgpre w2' fn e w3 post] rp f
  have rh: "runHooks 0 (shutdownFn m') w1' =
      (lgpre @ [ExecutingShutdownHook (length pre + 1), ShutdownHookFailedLog (length pre + 1) e],
       w3, Some (ShutdownHookFailed (length pre + 1) e))"
    using a by simp
  show "Shutdown b' m' w' =
           (if b' then Some ContextErr else Some (ShutdownHookFailed (length pre + 1) e),
            m'\<lparr>isShutdown := True\<rparr>, w3,
            [StoppingHTTPServer, HTTPServerStopped, ExecutingShutdownHooks]
              @ map ExecutingShutdownHook [1 ..< length pre + 2]
              @ [ShutdownHookFailedLog (length pre + 1) e])"
    using a rh lp by (simp add: Shutdown_def teardown_def)
  show "w3 = snd (fn (foldl (\<lambda>w fn. snd (fn w)) w1' pre))"
    using f w2' by simp
qed

theorem Shutdown_hook_failure_witness:
  "\<not> isShutdown goodManager \<and> server goodManager [] = (None, [''server stopped''])
   \<and> runHooks 0 (shutdownFn goodManager) [''server stopped'']
        = ([ExecutingShutdownHook 1], [''server stopped'', ''hook A ran''], None)
   \<and> (\<exists>rest. snd (snd (snd (Shutdown False goodManager []))) =
          [StoppingHTTPServer, HTTPServerStopped, ExecutingShutdownHooks]
            @ [ExecutingShutdownHook 1] @ rest)
   \<and> \<not> isShutdown badManager \<and> shutdownFn badManager = [hookA] @ hookBad # [hookC]
   \<and> server badManager [] = (None, [''server stopped''])
   \<and> runHooks 0 [hookA] [''server stopped'']
        = ([ExecutingShutdownHook 1], [''server stopped'', ''hook A ran''], None)
   \<and> hookBad [''server stopped'', ''hook A ran'']
        = (Some hookError, [''server stopped'', ''hook A ran'', ''hook B ran''])
   \<and> Shutdown False badManager [] =
        (Some (ShutdownHookFailed 2 hookError), badManager\<lparr>isShutdown := True\<rparr>,
         [''server stopped'', ''hook A ran'', ''hook B ran''],
         [StoppingHTTPServer, HTTPServerStopped, ExecutingShutdownHooks,
          ExecutingShutdownHook 1, ExecutingShutdownHook 2, ShutdownHookFailedLog 2 hookError])"
proof -
  note inst = Shutdown_hook_failure[of goodManager "[]" "[''server stopped'']"
      "[ExecutingShutdownHook 1]" "[''server stopped'', ''hook A ran'']" False
      badManager "[hookA]" hookBad "[hookC]" "[]" "[''server stopped'']"
      "[ExecutingShutdownHook 1]" "[''server stopped'', ''hook A ran'']" hookError
      "[''server stopped'', ''hook A ran'', ''hook B ran'']" False]
  have h1: "\<not> isShutdown goodManager \<and> server goodManager [] = (None, [''server stopped''])
      \<and> runHooks 0 (shutdownFn goodManager) [''server stopped'']
        = ([ExecutingShutdownHook 1], [''server stopped'', ''hook A ran''], None)"
    by (simp add: manager_eval)
  have h2: "\<not> isShutdown badManager \<and> shutdownFn badManager = [hookA] @ hookBad # [hookC]
      \<and> server badManager [] = (None, [''server stopped''])
      \<and> runHooks 0 [hookA] [''server stopped'']
        = ([ExecutingShutdownHook 1], [''server stopped'', ''hook A ran''], None)
      \<and> hookBad [''server stopped'', ''hook A ran'']
        = (Some hookError, [''server stopped'', ''hook A ran'', ''hook B ran''])"
    by (simp add: manager_eval hookError_def)
  from inst h1 have c1: "\<exists>rest. snd (snd (snd (Shutdown False goodManager []))) =
          [StoppingHTTPServer, HTTPServerStopped, ExecutingShutdownHooks]
            @ [ExecutingShutdownHook 1] @ rest"
    by blast
  from inst h2 have c2: "Shutdown False badManager [] =
           (if False then Some ContextErr
            else Some (ShutdownHookFailed (length [hookA] + 1) hookError),
            badManager\<lparr>isShutdown := True\<rparr>,
            [''server stopped'', ''hook A ran'', ''hook B ran''],
            [StoppingHTTPServer, HTTPServerStopped, ExecutingShutdownHooks]
              @ map ExecutingShutdownHook [1 ..< length [hookA] + 2]
              @ [ShutdownHookFailedLog (length [hookA] + 1) hookError])"
    by blast
  have c2': "Shutdown False badManager [] =
        (Some (ShutdownHookFailed 2 hookError), badManager\<lparr>isShutdown := True\<rparr>,
         [''server stopped'', ''hook A ran'', ''hook B ran''],
         [StoppingHTTPServer, HTTPServerStopped, ExecutingShutdownHooks,
          ExecutingShutdownHook 1, ExecutingShutdownHook 2, ShutdownHookFailedLog 2 hookError])"
    unfolding c2 by (simp add: numeral_2_eq_2)
  from h1 h2 c1 c2' show ?thesis by simp
qed

text \<open>
  C6 as it was stated fails where the deadline passes before the failing hook's error is
  received: the second of three hooks fails, no later hook runs and the database stays
  open, but \<open>Shutdown\<close> returns the context's error, which names no hook.
\<close>

theorem Shutdown_hook_failure_counterexample:
  "\<not> isShutdown badManager \<and> shutdownFn badManager = [hookA, hookBad, hookC]
   \<and> hookBad [''server stopped'', ''hook A ran'']
        = (Some hookError, [''server stopped'', ''hook A ran'', ''hook B ran''])
   \<and> snd (snd (snd (Shutdown True badManager []))) =
        [StoppingHTTPServer, HTTPServerStopped, ExecutingShutdownHooks,
         ExecutingShutdownHook 1, ExecutingShutdownHook 2, ShutdownHookFailedLog 2 hookError]
   \<and> fst (Shutdown True badManager []) = Some ContextErr
   \<and> fst (Shutdown True badManager []) \<noteq> Some (ShutdownHookFailed 2 hookError)"
  by (simp add: manager_eval hookError_def)

subsection \<open>Hooks added while a shutdown is at work\<close>












section \<open>Properties of the circuit breaker\<close>

lemma ReadyToTrip_nat:
  "ReadyToTrip cs = (2 \<le> Requests cs \<and> Requests cs \<le> 2 * TotalFailures cs)"
proof (cases "Requests cs = 0")
  case True
  then show ?thesis by (simp add: ReadyToTrip_def)
next
  case False
  then have "(real (TotalFailures cs) / real (Requests cs) \<ge> 0.5)
      = (real (Requests cs) \<le> 2 * real (TotalFailures cs))"
    by (simp add: field_simps)
  also have "\<dots> = (Requests cs \<le> 2 * TotalFailures cs)"
    by (metis of_nat_le_iff of_nat_mult of_nat_numeral)
  finally show ?thesis by (simp add: ReadyToTrip_def Let_def)
qed

lemma Execute_open_early:
  "state g = Open \<Longrightarrow> now - openedAt g < openTimeout cfg \<Longrightarrow>
   Execute cfg now operation g w = (Inl ErrCircuitOpen, g, w)"
  by (simp add: Execute_def)

lemma executeRun_entry:
  "x \<in> set (executeRun cfg calls g w) \<Longrightarrow>
   \<exists>now operation g1 w1. (now, operation) \<in> set calls
      \<and> x = (now, g1, w1, Execute cfg now operation g1 w1)"
proof (induction calls arbitrary: g w)
  case Nil
  then show ?case by simp
next
  case (Cons c calls)
  obtain now operation where c: "c = (now, operation)" by (cases c)
  obtain r g' w' where e: "Execute cfg now operation g w = (r, g', w')"
    by (cases "Execute cfg now operation g w")
  from Cons.prems c e have "x = (now, g, w, r, g', w') \<or> x \<in> set (executeRun cfg calls g' w')"
    by simp
  then show ?case
  proof
    assume "x = (now, g, w, r, g', w')"
    with c e show ?thesis by auto
  next
    assume "x \<in> set (executeRun cfg calls g' w')"
    from Cons.IH[OF this] show ?thesis by auto
  qed
qed

text \<open>
  C3. While the gate is Open and less than \<open>openTimeout\<close> has passed since it opened,
  \<open>Execute\<close> fails at once with the circuit-open error and does not invoke the
  operation: the result is the same for every operation, and the gate and the world are
  untouched. In every sequence of calls from every state, with the invocations counted,
  each call made in such a state returns the circuit-open error and leaves the count of
  invocations, the gate and the world as they were. \<open>DB.Ping\<close> then returns that error
  without pinging the connection.
\<close>

theorem Execute_open_fails_fast:
  "(state g = Open \<and> now - openedAt g < openTimeout cfg
      \<longrightarrow> Execute cfg now operation g w = (Inl ErrCircuitOpen, g, w))
   \<and> (\<forall>x \<in> set (executeRun cfg (map (\<lambda>(t, operation). (t, counted operation)) calls)
                    g0 (n0, w0)).
        case x of (t, g1, (n1, w1), r, g2, (n2, w2)) \<Rightarrow>
          state g1 = Open \<and> t - openedAt g1 < openTimeout cfg
            \<longrightarrow> r = Inl ErrCircuitOpen \<and> g2 = g1 \<and> n2 = n1 \<and> w2 = w1)
   \<and> (state g' = Open \<and> now' - openedAt g' < openTimeout cfg
      \<longrightarrow> Ping cfg now' pingContext (g', conn) = (Some ErrCircuitOpen, g', conn))"
proof (intro conjI impI ballI)
  assume "state g = Open \<and> now - openedAt g < openTimeout cfg"
  then show "Execute cfg now operation g w = (Inl ErrCircuitOpen, g, w)"
    by (simp add: Execute_open_early)
next
  fix x
  assume "x \<in> set (executeRun cfg (map (\<lambda>(t, operation). (t, counted operation)) calls)
                    g0 (n0, w0))"
  from executeRun_entry[OF this] obtain t op' g1 nw1
    where x: "x = (t, g1, nw1, Execute cfg t op' g1 nw1)" by blast
  obtain n1 w1 where nw1: "nw1 = (n1, w1)" by (cases nw1)
  show "case x of (t, g1, (n1, w1), r, g2, (n2, w2)) \<Rightarrow>
          state g1 = Open \<and> t - openedAt g1 < openTimeout cfg
            \<longrightarrow> r = Inl ErrCircuitOpen \<and> g2 = g1 \<and> n2 = n1 \<and> w2 = w1"
    by (auto simp: x nw1 Execute_open_early)
next
  assume "state g' = Open \<and> now' - openedAt g' < openTimeout cfg"
  then show "Ping cfg now' pingContext (g', conn) = (Some ErrCircuitOpen, g', conn)"
    by (simp add: Ping_def Execute_open_early)
qed


lemmas breaker_eval = Execute_def executeClosed_def executeHalfOpen_def cbSettings_def
  NewFailureGate_def countOutcome_def ReadyToTrip_nat zeroCounts_def Second_def
  failingOp_def succeedingOp_def counted_def

lemma breakerCalls_run:
  "executeRun cbSettings (map (\<lambda>(t, operation). (t, counted operation)) breakerCalls)
     (NewFailureGate 0) (0, ()) =
   [(1 * Second, NewFailureGate 0, (0, ()), Inl (OpError ''connection refused''),
       \<lparr>state = Closed,
        counts = \<lparr>Requests = 1, TotalSuccesses = 0, TotalFailures = 1, ConsecutiveFailures = 1\<rparr>,
        openedAt = 0, intervalStart = 0\<rparr>, (1, ())),
    (2 * Second,
       \<lparr>state = Closed,
        counts = \<lparr>Requests = 1, TotalSuccesses = 0, TotalFailures = 1, ConsecutiveFailures = 1\<rparr>,
        openedAt = 0, intervalStart = 0\<rparr>, (1, ()), Inl (OpError ''connection refused''),
       openGate, (2, ())),
    (3 * Second, openGate, (2, ()), Inl ErrCircuitOpen, openGate, (2, ())),
    (13 * Second, openGate, (2, ()), Inr (),
       \<lparr>state = HalfOpen,
        counts = \<lparr>Requests = 1, TotalSuccesses = 1, TotalFailures = 0, ConsecutiveFailures = 0\<rparr>,
        openedAt = 2 * Second, intervalStart = 0\<rparr>, (3, ()))]"
  by (simp add: breakerCalls_def openGate_def breaker_eval)

theorem Execute_open_fails_fast_witness:
  "state openGate = Open \<and> 3 * Second - openedAt openGate < openTimeout cbSettings
   \<and> Execute cbSettings (3 * Second) (counted succeedingOp) openGate (2, ())
        = (Inl ErrCircuitOpen, openGate, (2, ()))
   \<and> (3 * Second, openGate, (2, ()), Inl ErrCircuitOpen, openGate, (2, ()))
        \<in> set (executeRun cbSettings
                  (map (\<lambda>(t, operation). (t, counted operation)) breakerCalls)
                  (NewFailureGate 0) (0, ()))
   \<and> Ping cbSettings (3 * Second) (\<lambda>c. (None, c)) (openGate, ())
        = (Some ErrCircuitOpen, openGate, ())"
proof -
  note inst = Execute_open_fails_fast[of openGate "3 * Second" cbSettings
      "counted succeedingOp" "(2, ())" breakerCalls "NewFailureGate 0" 0 "()"
      openGate "3 * Second" "\<lambda>c. (None, c)" "()"]
  have h: "state openGate = Open \<and> 3 * Second - openedAt openGate < openTimeout cbSettings"
    by (simp add: openGate_def cbSettings_def Second_def)
  have mem: "(3 * Second, openGate, (2, ()), Inl ErrCircuitOpen, openGate, (2, ()))
        \<in> set (executeRun cbSettings
                  (map (\<lambda>(t, operation). (t, counted operation)) breakerCalls)
                  (NewFailureGate 0) (0, ()))"
    by (simp add: breakerCalls_run)
  from inst h have "Execute cbSettings (3 * Second) (counted succeedingOp) openGate (2, ())
        = (Inl ErrCircuitOpen, openGate, (2, ()))
      \<and> Ping cbSettings (3 * Second) (\<lambda>c. (None, c)) (openGate, ())
        = (Some ErrCircuitOpen, openGate, ())"
    by blast
  with h mem show ?thesis by simp
qed

lemma first_failure_counts:
  assumes "state g = Closed" and "counts g = zeroCounts"
    and "Execute cbSettings t1 op1 g w0 = (r1, g1, w1)" and "isl r1"
  shows "state g1 = Closed
    \<and> counts g1 = \<lparr>Requests = 1, TotalSuccesses = 0, TotalFailures = 1, ConsecutiveFailures = 1\<rparr>
    \<and> intervalStart g1 =
        (if rollingInterval cbSettings \<le> t1 - intervalStart g then t1 else intervalStart g)"
proof -
  obtain r w' where o: "op1 w0 = (r, w')" by (cases "op1 w0")
  from assms o show ?thesis
    by (auto simp: Execute_def executeClosed_def countOutcome_def
          ReadyToTrip_nat zeroCounts_def cbSettings_def Let_def split: if_splits)
qed

lemma second_failure_trips:
  assumes "state g1 = Closed"
    and "counts g1 = \<lparr>Requests = 1, TotalSuccesses = 0, TotalFailures = 1,
                      ConsecutiveFailures = 1\<rparr>"
    and "Execute cbSettings t2 op2 g1 w1 = (r2, g2, w2)" and "isl r2"
  shows "if t2 - intervalStart g1 < rollingInterval cbSettings
         then state g2 = Open \<and> openedAt g2 = t2 else state g2 = Closed"
proof -
  obtain r w' where o: "op2 w1 = (r, w')" by (cases "op2 w1")
  from assms o show ?thesis
    by (auto simp: Execute_def executeClosed_def countOutcome_def
          ReadyToTrip_nat zeroCounts_def cbSettings_def Let_def split: if_splits)
qed

text \<open>
  C4, as the code has it. The configured trip predicate \<open>ReadyToTrip\<close> holds exactly
  when at least two requests are counted and at least half of them failed. A Closed
  breaker with no counted request that receives two calls, both failing, is Closed after
  the first failure, and after the second it is Open, with \<open>openedAt\<close> the time of the
  second call, if the rolling interval that is running after the first call has not
  expired at the second; if it has expired, the counts are reset before the second
  failure is counted and the breaker stays Closed. The interval running after the first
  call began at that call if the earlier one had expired by then, and is the earlier
  one otherwise.
\<close>

theorem two_failures_trip:
  "ReadyToTrip cs = (2 \<le> Requests cs \<and> Requests cs \<le> 2 * TotalFailures cs)
   \<and> (state g = Closed \<and> counts g = zeroCounts
      \<and> Execute cbSettings t1 op1 g w0 = (r1, g1, w1) \<and> isl r1
      \<and> Execute cbSettings t2 op2 g1 w1 = (r2, g2, w2) \<and> isl r2
     \<longrightarrow> state g1 = Closed
       \<and> intervalStart g1 =
           (if rollingInterval cbSettings \<le> t1 - intervalStart g then t1 else intervalStart g)
       \<and> (if t2 - intervalStart g1 < rollingInterval cbSettings
           then state g2 = Open \<and> openedAt g2 = t2 else state g2 = Closed))"
proof (intro conjI impI)
  show "ReadyToTrip cs = (2 \<le> Requests cs \<and> Requests cs \<le> 2 * TotalFailures cs)"
    by (rule ReadyToTrip_nat)
next
  assume a: "state g = Closed \<and> counts g = zeroCounts
      \<and> Execute cbSettings t1 op1 g w0 = (r1, g1, w1) \<and> isl r1
      \<and> Execute cbSettings t2 op2 g1 w1 = (r2, g2, w2) \<and> isl r2"
  then have f: "state g1 = Closed
    \<and> counts g1 = \<lparr>Requests = 1, TotalSuccesses = 0, TotalFailures = 1, ConsecutiveFailures = 1\<rparr>
    \<and> intervalStart g1 =
        (if rollingInterval cbSettings \<le> t1 - intervalStart g then t1 else intervalStart g)"
    by (intro first_failure_counts[of g t1 op1 w0 r1 g1 w1]) simp_all
  then show "state g1 = Closed" and "intervalStart g1 =
        (if rollingInterval cbSettings \<le> t1 - intervalStart g then t1 else intervalStart g)"
    by simp_all
  from a f show "if t2 - intervalStart g1 < rollingInterval cbSettings
         then state g2 = Open \<and> openedAt g2 = t2 else state g2 = Closed"
    by (intro second_failure_trips[of g1 t2 op2 w1 r2 g2 w2]) simp_all
qed

theorem two_failures_trip_witness:
  "state (NewFailureGate 0) = Closed \<and> counts (NewFailureGate 0) = zeroCounts
   \<and> Execute cbSettings (40 * Second) failingOp (NewFailureGate 0) ()
        = (Inl (OpError ''connection refused''), lateFailureGate, ())
   \<and> isl (Inl (OpError ''connection refused'') :: error + unit)
   \<and> Execute cbSettings (41 * Second) failingOp lateFailureGate ()
        = (Inl (OpError ''connection refused''), lateOpenGate, ())
   \<and> 41 * Second - intervalStart lateFailureGate < rollingInterval cbSettings
   \<and> state lateFailureGate = Closed \<and> state lateOpenGate = Open
   \<and> openedAt lateOpenGate = 41 * Second
   \<and> Execute cbSettings (1 * Second) failingOp (NewFailureGate 0) ()
        = (Inl (OpError ''connection refused''), oneFailureGate, ())
   \<and> rollingInterval cbSettings \<le> 32 * Second - intervalStart oneFailureGate
   \<and> state (fst (snd (Execute cbSettings (32 * Second) failingOp oneFailureGate ()))) = Closed"
proof -
  let ?late = "Execute cbSettings (32 * Second) failingOp oneFailureGate ()"
  note inst1 = two_failures_trip[of zeroCounts "NewFailureGate 0" "40 * Second" failingOp "()"
      "Inl (OpError ''connection refused'')" lateFailureGate "()" "41 * Second" failingOp
      "Inl (OpError ''connection refused'')" lateOpenGate "()"]
  note inst2 = two_failures_trip[of zeroCounts "NewFailureGate 0" "1 * Second" failingOp "()"
      "Inl (OpError ''connection refused'')" oneFailureGate "()" "32 * Second" failingOp
      "fst ?late" "fst (snd ?late)" "snd (snd ?late)"]
  have h0: "state (NewFailureGate 0) = Closed \<and> counts (NewFailureGate 0) = zeroCounts"
    by (simp add: NewFailureGate_def)
  have h1: "Execute cbSettings (40 * Second) failingOp (NewFailureGate 0) ()
        = (Inl (OpError ''connection refused''), lateFailureGate, ())
      \<and> isl (Inl (OpError ''connection refused'') :: error + unit)
      \<and> Execute cbSettings (41 * Second) failingOp lateFailureGate ()
        = (Inl (OpError ''connection refused''), lateOpenGate, ())"
    by (simp add: breaker_eval lateFailureGate_def lateOpenGate_def)
  have t1: "41 * Second - intervalStart lateFailureGate < rollingInterval cbSettings"
    by (simp add: lateFailureGate_def cbSettings_def Second_def)
  have h2: "Execute cbSettings (1 * Second) failingOp (NewFailureGate 0) ()
        = (Inl (OpError ''connection refused''), oneFailureGate, ())
      \<and> ?late = (fst ?late, fst (snd ?late), snd (snd ?late)) \<and> isl (fst ?late)"
    by (simp add: breaker_eval oneFailureGate_def)
  have t2: "rollingInterval cbSettings \<le> 32 * Second - intervalStart oneFailureGate"
    by (simp add: oneFailureGate_def cbSettings_def Second_def)
  from inst1 h0 h1 t1 have c1: "state lateFailureGate = Closed \<and> state lateOpenGate = Open
      \<and> openedAt lateOpenGate = 41 * Second"
    by (metis (full_types))
  from inst2 h0 h1 h2 t2 have c2: "state (fst (snd ?late)) = Closed"
    by (metis (full_types) not_le)
  from h0 h1 h2 t1 t2 c1 c2 show ?thesis by simp
qed

text \<open>
  C4 as it was stated fails when the rolling interval of thirty seconds expires between
  the two calls: the counts are reset before the second failure is counted, which is
  then the only request of its interval, and the breaker stays Closed.
\<close>

theorem two_failures_trip_counterexample:
  "Execute cbSettings (1 * Second) failingOp (NewFailureGate 0) ()
        = (Inl (OpError ''connection refused''), oneFailureGate, ())
   \<and> fst (Execute cbSettings (32 * Second) failingOp oneFailureGate ())
        = Inl (OpError ''connection refused'')
   \<and> state (fst (snd (Execute cbSettings (32 * Second) failingOp oneFailureGate ()))) = Closed
   \<and> state (fst (snd (Execute cbSettings (32 * Second) failingOp oneFailureGate ()))) \<noteq> Open
   \<and> counts (fst (snd (Execute cbSettings (32 * Second) failingOp oneFailureGate ())))
        = \<lparr>Requests = 1, TotalSuccesses = 0, TotalFailures = 1, ConsecutiveFailures = 1\<rparr>"
  by (simp add: breaker_eval oneFailureGate_def)

end
